theory Spec2Isabelle
  imports Complex_Main "HOL-Library.List_Lexorder" "HOL-Library.Char_ord" "HOL-Library.AList_Mapping"
begin

section \<open>Errors\<close>

text \<open>
  Every \<^verbatim>\<open>raise\<close>, failed \<^verbatim>\<open>assert\<close> and library exception of the Python source
  is a value of this type; a fallible function returns \<open>error + 'a\<close> with \<open>Inl\<close> the
  exception. A \<^verbatim>\<open>ValueError\<close> carries the article types its message names (none when it
  comes from the tensor library).
\<close>

datatype error =
    AssertionError
  | ValueError "string set"
  | IndexError
  | KeyError
  | TypeError
  | RuntimeError
  | ZeroDivisionError
  | ColumnNotFoundError
  | FileNotFoundError

section \<open>Class mapping (\<^verbatim>\<open>HumanChatBotDataset.find_classnum_mapping\<close>)\<close>

text \<open>
  \<^verbatim>\<open>Series.unique().to_list()\<close>: the distinct values of a column. Polars leaves their
  order open; every caller below sorts the result or turns it into a set.
\<close>

definition unique :: "'a list \<Rightarrow> 'a list" where
  "unique xs = remdups xs"

text \<open>The dict comprehension \<^verbatim>\<open>{x: i for i, x in enumerate(xs)}\<close>: later pairs overwrite.\<close>

definition enumerate_dict :: "'a list \<Rightarrow> ('a \<rightharpoonup> int)" where
  "enumerate_dict xs = fold (\<lambda>(i, x) m. m(x \<mapsto> int i)) (enumerate 0 xs) Map.empty"

text \<open>
  \<^verbatim>\<open>find_classnum_mapping\<close> reads the \<^verbatim>\<open>type\<close> column, sorts its distinct values
  (\<^verbatim>\<open>list.sort\<close>, ascending) and numbers them. The argument is that column.
\<close>

definition find_classnum_mapping :: "'a::linorder list \<Rightarrow> ('a \<rightharpoonup> int)" where
  "find_classnum_mapping type_column =
     (let article_types = sort (unique type_column)
      in enumerate_dict article_types)"

section \<open>Lazy dataset (\<^verbatim>\<open>LazyHumanChatBotDataset\<close>)\<close>

text \<open>A raw record: the \<^verbatim>\<open>type\<close> and \<^verbatim>\<open>text\<close> columns of one row.\<close>

record raw_row =
  row_type :: string
  row_text :: string

record 'v LazyHumanChatBotDataset =
  data :: "raw_row list"
  embedder :: "string \<Rightarrow> 'v"
  article_type_to_classnum :: "string \<rightharpoonup> int"

text \<open>
  The dataclass constructor followed by \<^verbatim>\<open>__post_init__\<close>: the set difference of the types
  in the data and the keys of the mapping; a non-empty difference raises
  \<^verbatim>\<open>ValueError\<close>, which carries the missing types.
\<close>

definition missing_types :: "raw_row list \<Rightarrow> (string \<rightharpoonup> int) \<Rightarrow> string set" where
  "missing_types d m =
     (let types_in_dataset = unique (map row_type d)
      in set types_in_dataset - dom m)"

definition new_LazyHumanChatBotDataset ::
  "raw_row list \<Rightarrow> (string \<Rightarrow> 'v) \<Rightarrow> (string \<rightharpoonup> int) \<Rightarrow> error + 'v LazyHumanChatBotDataset" where
  "new_LazyHumanChatBotDataset d e m =
     (if missing_types d m \<noteq> {} then Inl (ValueError (missing_types d m))
      else Inr \<lparr>data = d, embedder = e, article_type_to_classnum = m\<rparr>)"

text \<open>\<^verbatim>\<open>get_class_num\<close>: a dict lookup, \<^verbatim>\<open>KeyError\<close> on a missing key.\<close>

definition get_class_num :: "'v LazyHumanChatBotDataset \<Rightarrow> string \<Rightarrow> error + int" where
  "get_class_num ds article_type =
     (case article_type_to_classnum ds article_type of
        None \<Rightarrow> Inl KeyError
      | Some c \<Rightarrow> Inr c)"

text \<open>
  Row access by an integer index, as \<^verbatim>\<open>DataFrame.row(idx)\<close> and
  \<^verbatim>\<open>DataFrame[idx]\<close> followed by \<^verbatim>\<open>.item()\<close> behave: a negative index counts from
  the end, an index outside the frame raises.
\<close>

definition row_at :: "'a list \<Rightarrow> int \<Rightarrow> error + 'a" where
  "row_at xs idx =
     (let n = int (length xs); j = (if idx < 0 then n + idx else idx)
      in if 0 \<le> j \<and> j < n then Inr (xs ! nat j) else Inl IndexError)"

definition lazy_len :: "'v LazyHumanChatBotDataset \<Rightarrow> nat" where
  "lazy_len ds = length (data ds)"

definition lazy_getitem :: "'v LazyHumanChatBotDataset \<Rightarrow> int \<Rightarrow> error + ('v \<times> int)" where
  "lazy_getitem ds idx =
     (case row_at (data ds) idx of
        Inl e \<Rightarrow> Inl e
      | Inr row \<Rightarrow>
          (let text = row_text row; article_type = row_type row
           in case get_class_num ds article_type of
                Inl e \<Rightarrow> Inl e
              | Inr label \<Rightarrow> Inr (embedder ds text, label)))"

section \<open>Tensor elements\<close>

text \<open>
  An element of a \<^verbatim>\<open>torch.float32\<close> tensor is a finite number, an infinity or NaN. The
  arithmetic below follows IEEE 754: on the special values \<open>0/0\<close>, \<open>\<infinity> - \<infinity>\<close> and
  \<open>0 * \<infinity>\<close> are NaN and NaN propagates; the exact result of an operation on finite
  values is rounded to the nearest number of the 32-bit format, ties to even, and becomes
  an infinity when it overflows. The sign of a zero is not modelled.
\<close>

datatype fval = Fin real | PInf | NInf | NaN

subsection \<open>Rounding to the 32-bit format\<close>

text \<open>
  The numbers of the format are the multiples \<open>m * 2^e\<close> with \<open>\<bar>m\<bar> < 2^24\<close> and
  \<open>- 149 \<le> e \<le> 104\<close>. The spacing of the format around \<open>x\<close> is \<open>2^e\<close> for the least such
  \<open>e\<close> with \<open>\<bar>x\<bar> < 2^(e + 24)\<close> (\<open>- 149\<close> covers the subnormal numbers), found by
  searching upwards from \<open>- 149\<close>.
\<close>

function quantum_search :: "int \<Rightarrow> real \<Rightarrow> int" where
  "quantum_search e x =
     (if 104 \<le> e \<or> \<bar>x\<bar> < 2 powi (e + 24) then e else quantum_search (e + 1) x)"
  by pat_completeness auto
termination
  by (relation "measure (\<lambda>(e, x). nat (104 - e))") auto

declare quantum_search.simps [simp del]

definition quantum_exp :: "real \<Rightarrow> int" where
  "quantum_exp x = quantum_search (- 149) x"

text \<open>The nearest integer, a tie going to the even neighbour.\<close>

definition round_half_even :: "real \<Rightarrow> int" where
  "round_half_even t =
     (let f = \<lfloor>t\<rfloor>
      in if t - of_int f < 1 / 2 then f
         else if 1 / 2 < t - of_int f then f + 1
         else if even f then f else f + 1)"

text \<open>
  \<open>round32_real x\<close> is the nearest multiple of the spacing around \<open>x\<close>; \<open>round32 x\<close> is the
  tensor element it gives: an infinity when the rounded value has left the format (its
  largest number is \<open>2^128 - 2^104\<close>).
\<close>

definition round32_real :: "real \<Rightarrow> real" where
  "round32_real x =
     (let q = 2 powi quantum_exp x
      in of_int (round_half_even (x / q)) * q)"

definition round32 :: "real \<Rightarrow> fval" where
  "round32 x =
     (let y = round32_real x
      in if 2 ^ 128 \<le> y then PInf
         else if y \<le> - (2 ^ 128) then NInf
         else Fin y)"

text \<open>The finite numbers a tensor of this type can hold.\<close>

definition is_float32 :: "real \<Rightarrow> bool" where
  "is_float32 x \<longleftrightarrow> round32 x = Fin x"

subsection \<open>Arithmetic\<close>

fun fsub :: "fval \<Rightarrow> fval \<Rightarrow> fval" where
  "fsub (Fin a) (Fin b) = round32 (a - b)"
| "fsub NaN _ = NaN"
| "fsub _ NaN = NaN"
| "fsub PInf PInf = NaN"
| "fsub NInf NInf = NaN"
| "fsub PInf _ = PInf"
| "fsub NInf _ = NInf"
| "fsub (Fin a) PInf = NInf"
| "fsub (Fin a) NInf = PInf"

fun fdiv :: "fval \<Rightarrow> fval \<Rightarrow> fval" where
  "fdiv (Fin a) (Fin b) =
     (if b \<noteq> 0 then round32 (a / b)
      else if a = 0 then NaN
      else if 0 < a then PInf else NInf)"
| "fdiv NaN _ = NaN"
| "fdiv _ NaN = NaN"
| "fdiv (Fin a) PInf = Fin 0"
| "fdiv (Fin a) NInf = Fin 0"
| "fdiv PInf (Fin b) = (if 0 \<le> b then PInf else NInf)"
| "fdiv NInf (Fin b) = (if 0 \<le> b then NInf else PInf)"
| "fdiv PInf _ = NaN"
| "fdiv NInf _ = NaN"

fun fmul :: "fval \<Rightarrow> fval \<Rightarrow> fval" where
  "fmul (Fin a) (Fin b) = round32 (a * b)"
| "fmul NaN _ = NaN"
| "fmul _ NaN = NaN"
| "fmul (Fin a) PInf = (if a = 0 then NaN else if 0 < a then PInf else NInf)"
| "fmul (Fin a) NInf = (if a = 0 then NaN else if 0 < a then NInf else PInf)"
| "fmul PInf (Fin b) = (if b = 0 then NaN else if 0 < b then PInf else NInf)"
| "fmul NInf (Fin b) = (if b = 0 then NaN else if 0 < b then NInf else PInf)"
| "fmul PInf PInf = PInf"
| "fmul NInf NInf = PInf"
| "fmul PInf NInf = NInf"
| "fmul NInf PInf = NInf"

text \<open>The smaller and the larger of two elements; NaN wins, as in \<^verbatim>\<open>torch.min\<close>.\<close>

fun fmin :: "fval \<Rightarrow> fval \<Rightarrow> fval" where
  "fmin (Fin a) (Fin b) = Fin (min a b)"
| "fmin NaN _ = NaN"
| "fmin _ NaN = NaN"
| "fmin NInf _ = NInf"
| "fmin _ NInf = NInf"
| "fmin PInf b = b"
| "fmin (Fin a) PInf = Fin a"

fun fmax :: "fval \<Rightarrow> fval \<Rightarrow> fval" where
  "fmax (Fin a) (Fin b) = Fin (max a b)"
| "fmax NaN _ = NaN"
| "fmax _ NaN = NaN"
| "fmax PInf _ = PInf"
| "fmax _ PInf = PInf"
| "fmax NInf b = b"
| "fmax (Fin a) NInf = Fin a"

text \<open>\<^verbatim>\<open>Tensor.min()\<close> and \<^verbatim>\<open>Tensor.max()\<close> of a 1-D tensor; both raise on an empty one.\<close>

fun tensor_min :: "fval list \<Rightarrow> error + fval" where
  "tensor_min [] = Inl RuntimeError"
| "tensor_min (x # xs) = Inr (fold fmin xs x)"

fun tensor_max :: "fval list \<Rightarrow> error + fval" where
  "tensor_max [] = Inl RuntimeError"
| "tensor_max (x # xs) = Inr (fold fmax xs x)"

section \<open>Image projection (\<^verbatim>\<open>get_embedding_as_image_tensor\<close>)\<close>

text \<open>
  The embedding is viewed as a \<open>1 \<times> V\<close> row, min-max normalised, multiplied from the
  left by its transpose (\<open>V \<times> 1\<close> times \<open>1 \<times> V\<close>: entry \<open>(i, j)\<close> is the product of the
  \<open>i\<close>-th and the \<open>j\<close>-th element), scaled by 255 and viewed as one channel of size
  \<open>V \<times> V\<close>. The result is the list of channels.
\<close>

definition get_embedding_as_image_tensor :: "fval list \<Rightarrow> error + fval list list list" where
  "get_embedding_as_image_tensor embedding =
     (case tensor_min embedding of
        Inl e \<Rightarrow> Inl e
      | Inr mn \<Rightarrow>
          (case tensor_max embedding of
             Inl e \<Rightarrow> Inl e
           | Inr mx \<Rightarrow>
               (let normalized = map (\<lambda>x. fdiv (fsub x mn) (fsub mx mn)) embedding;
                    cross_mult = map (\<lambda>a. map (\<lambda>b. fmul a b) normalized) normalized;
                    scaled = map (map (\<lambda>c. fmul c (Fin 255))) cross_mult
                in Inr [scaled])))"

section \<open>Tabular sample store (\<^verbatim>\<open>HumanChatBotDataset\<close>)\<close>

text \<open>
  The data frame of the store, with the columns the repository gives it, in the order
  \<^verbatim>\<open>from_raw_data\<close> builds them: an optional \<^verbatim>\<open>type\<close> column, the \<^verbatim>\<open>label\<close> column
  (absent in a frame that fails the constructor's assertion) and the named feature
  columns \<^verbatim>\<open>f0\<close>, \<^verbatim>\<open>f1\<close>, ... All columns of a Polars frame have the same height.
\<close>

record frame =
  type_col :: "string list option"
  label_col :: "int list option"
  feature_cols :: "(string \<times> fval list) list"

datatype cell = StrCell string | IntCell int | FloatCell fval

definition frame_height :: "frame \<Rightarrow> nat" where
  "frame_height d =
     (case type_col d of
        Some ts \<Rightarrow> length ts
      | None \<Rightarrow>
          (case label_col d of
             Some ls \<Rightarrow> length ls
           | None \<Rightarrow> (case feature_cols d of [] \<Rightarrow> 0 | (_, c) # _ \<Rightarrow> length c)))"

text \<open>The tuple \<^verbatim>\<open>DataFrame.row(i)\<close> for \<open>i\<close> inside the frame.\<close>

definition frame_row :: "frame \<Rightarrow> nat \<Rightarrow> cell list" where
  "frame_row d i =
     (case type_col d of None \<Rightarrow> [] | Some ts \<Rightarrow> [StrCell (ts ! i)]) @
     (case label_col d of None \<Rightarrow> [] | Some ls \<Rightarrow> [IntCell (ls ! i)]) @
     map (\<lambda>(name, c). FloatCell (c ! i)) (feature_cols d)"

text \<open>
  The position an integer index denotes in a frame of \<open>n\<close> rows: a negative index counts
  from the end, an index outside the frame raises.
\<close>

definition row_index :: "nat \<Rightarrow> int \<Rightarrow> error + nat" where
  "row_index n idx =
     (if 0 \<le> idx \<and> idx < int n then Inr (nat idx)
      else if - int n \<le> idx \<and> idx < 0 then Inr (nat (int n + idx))
      else Inl IndexError)"

record HumanChatBotDataset =
  hcb_data :: frame
  n_non_feature_columns :: nat
  number_of_classes :: nat

text \<open>\<^verbatim>\<open>Expr.replace(mappings)\<close> on one value: a value without an entry is kept.\<close>

definition replace_label :: "(int \<rightharpoonup> int) \<Rightarrow> int \<Rightarrow> int" where
  "replace_label mappings x = (case mappings x of None \<Rightarrow> x | Some v \<Rightarrow> v)"

text \<open>
  The dataclass constructor followed by \<^verbatim>\<open>__post_init__\<close>: the assertion on the
  \<^verbatim>\<open>label\<close> column, the re-indexing of the labels by their rank among the sorted
  distinct labels (applied only when some label differs from its rank), and the removal
  of the \<^verbatim>\<open>type\<close> column.
\<close>

definition new_HumanChatBotDataset :: "frame \<Rightarrow> error + HumanChatBotDataset" where
  "new_HumanChatBotDataset d =
     (case label_col d of
        None \<Rightarrow> Inl AssertionError
      | Some labels \<Rightarrow>
          (let present_labels = sort (unique labels);
               mappings = enumerate_dict present_labels;
               should_apply_mappings = list_ex (\<lambda>k. mappings k \<noteq> Some k) present_labels;
               d1 = (if should_apply_mappings
                     then d\<lparr>label_col := Some (map (replace_label mappings) labels)\<rparr>
                     else d);
               d2 = d1\<lparr>type_col := None\<rparr>
           in Inr \<lparr>hcb_data = d2, n_non_feature_columns = 1,
                    number_of_classes = length present_labels\<rparr>))"

text \<open>
  \<^verbatim>\<open>save\<close> and \<^verbatim>\<open>load\<close>. The file system is a map from paths to file contents; the CSV
  writer and reader of Polars are parameters.
\<close>

definition save ::
  "(frame \<Rightarrow> 'f) \<Rightarrow> HumanChatBotDataset \<Rightarrow> string \<Rightarrow> (string \<rightharpoonup> 'f) \<Rightarrow> (string \<rightharpoonup> 'f)" where
  "save write_csv ds save_path fs = fs(save_path \<mapsto> write_csv (hcb_data ds))"

definition load ::
  "('f \<Rightarrow> error + frame) \<Rightarrow> string \<Rightarrow> (string \<rightharpoonup> 'f) \<Rightarrow> error + HumanChatBotDataset" where
  "load read_csv load_path fs =
     (case fs load_path of
        None \<Rightarrow> Inl FileNotFoundError
      | Some file \<Rightarrow>
          (case read_csv file of
             Inl e \<Rightarrow> Inl e
           | Inr d \<Rightarrow> new_HumanChatBotDataset d))"

definition embedding_size :: "HumanChatBotDataset \<Rightarrow> int" where
  "embedding_size ds =
     int ((case type_col (hcb_data ds) of None \<Rightarrow> 0 | Some _ \<Rightarrow> 1) +
          (case label_col (hcb_data ds) of None \<Rightarrow> 0 | Some _ \<Rightarrow> 1) +
          length (feature_cols (hcb_data ds)))
     - int (n_non_feature_columns ds)"

definition hcb_len :: "HumanChatBotDataset \<Rightarrow> nat" where
  "hcb_len ds = frame_height (hcb_data ds)"

text \<open>
  \<^verbatim>\<open>torch.tensor(values, dtype=torch.float32)\<close>: a number is converted to the 32-bit
  format, which rounds it; a string raises.
\<close>

definition to_float32 :: "fval \<Rightarrow> fval" where
  "to_float32 v = (case v of Fin r \<Rightarrow> round32 r | _ \<Rightarrow> v)"

fun to_tensor :: "cell list \<Rightarrow> error + fval list" where
  "to_tensor [] = Inr []"
| "to_tensor (StrCell s # cs) = Inl TypeError"
| "to_tensor (IntCell k # cs) =
     (case to_tensor cs of Inl e \<Rightarrow> Inl e | Inr vs \<Rightarrow> Inr (round32 (of_int k) # vs))"
| "to_tensor (FloatCell v # cs) =
     (case to_tensor cs of Inl e \<Rightarrow> Inl e | Inr vs \<Rightarrow> Inr (to_float32 v # vs))"

definition hcb_getitem :: "HumanChatBotDataset \<Rightarrow> int \<Rightarrow> error + (fval list \<times> int)" where
  "hcb_getitem ds idx =
     (case row_index (hcb_len ds) idx of
        Inl e \<Rightarrow> Inl e
      | Inr i \<Rightarrow>
          (let tensor_values = drop (n_non_feature_columns ds) (frame_row (hcb_data ds) i)
           in case to_tensor tensor_values of
                Inl e \<Rightarrow> Inl e
              | Inr embedding \<Rightarrow>
                  (case label_col (hcb_data ds) of
                     None \<Rightarrow> Inl ColumnNotFoundError
                   | Some ls \<Rightarrow> Inr (embedding, ls ! i))))"

section \<open>Projection-backed image dataset (\<^verbatim>\<open>ImageByCrossMultiplicationDataset\<close>)\<close>

type_synonym image = "fval list list list"

definition DEFAULT_IMAGE_SHAPE :: "int \<times> int" where
  "DEFAULT_IMAGE_SHAPE = (100, 100)"

record ImageByCrossMultiplicationDataset =
  human_chatbot_ds :: HumanChatBotDataset
  resize :: bool
  precompute :: bool
  cache :: "(int, image) mapping"
  image_height :: int
  image_width :: int

text \<open>
  The precomputation loop of \<^verbatim>\<open>__post_init__\<close> over \<^verbatim>\<open>range(len(ds))\<close>; an exception
  of an item access or of the projection leaves the loop. \<open>resize_transform\<close> is
  torchvision's \<^verbatim>\<open>Resize(DEFAULT_IMAGE_SHAPE)\<close>, a parameter.
\<close>

fun precompute_loop ::
  "(image \<Rightarrow> image) \<Rightarrow> HumanChatBotDataset \<Rightarrow> bool \<Rightarrow> nat list \<Rightarrow> (int, image) mapping
   \<Rightarrow> error + (int, image) mapping" where
  "precompute_loop resize_transform ds rsz [] c = Inr c"
| "precompute_loop resize_transform ds rsz (i # rest) c =
     (case hcb_getitem ds (int i) of
        Inl e \<Rightarrow> Inl e
      | Inr (embedding, label) \<Rightarrow>
          (case get_embedding_as_image_tensor embedding of
             Inl e \<Rightarrow> Inl e
           | Inr img \<Rightarrow>
               (let img' = (if rsz then resize_transform img else img)
                in precompute_loop resize_transform ds rsz rest (Mapping.update (int i) img' c))))"

definition new_ImageByCrossMultiplicationDataset ::
  "(image \<Rightarrow> image) \<Rightarrow> HumanChatBotDataset \<Rightarrow> bool \<Rightarrow> bool
   \<Rightarrow> error + ImageByCrossMultiplicationDataset" where
  "new_ImageByCrossMultiplicationDataset resize_transform ds rsz pre =
     (let (h, w) = (if rsz then DEFAULT_IMAGE_SHAPE else (embedding_size ds, embedding_size ds))
      in if pre
         then (case precompute_loop resize_transform ds rsz [0..<hcb_len ds] Mapping.empty of
                 Inl e \<Rightarrow> Inl e
               | Inr c \<Rightarrow>
                   Inr \<lparr>human_chatbot_ds = ds, resize = rsz, precompute = pre, cache = c,
                        image_height = h, image_width = w\<rparr>)
         else Inr \<lparr>human_chatbot_ds = ds, resize = rsz, precompute = pre, cache = Mapping.empty,
                   image_height = h, image_width = w\<rparr>)"

text \<open>
  \<^verbatim>\<open>__getitem__\<close>: a non-empty cache is read at the index as given (\<^verbatim>\<open>KeyError\<close> when
  the key is absent); an empty one means projecting now.
\<close>

definition image_getitem ::
  "(image \<Rightarrow> image) \<Rightarrow> ImageByCrossMultiplicationDataset \<Rightarrow> int \<Rightarrow> error + (image \<times> int)" where
  "image_getitem resize_transform ids idx =
     (case hcb_getitem (human_chatbot_ds ids) idx of
        Inl e \<Rightarrow> Inl e
      | Inr (embedding, label) \<Rightarrow>
          if \<not> Mapping.is_empty (cache ids)
          then (case Mapping.lookup (cache ids) idx of
                  None \<Rightarrow> Inl KeyError
                | Some img \<Rightarrow> Inr (img, label))
          else (case get_embedding_as_image_tensor embedding of
                  Inl e \<Rightarrow> Inl e
                | Inr img \<Rightarrow>
                    Inr (if resize ids then resize_transform img else img, label)))"

text \<open>
  Equality of stored values within a tolerance \<open>eps\<close>, the relation the round trip through
  a CSV file is measured by: finite values differ by at most \<open>eps\<close>, special values are
  equal; two frames are close when they have the same \<^verbatim>\<open>type\<close> and \<^verbatim>\<open>label\<close> columns and
  feature columns of the same names and heights with pairwise close values.
\<close>

definition fval_close :: "real \<Rightarrow> fval \<Rightarrow> fval \<Rightarrow> bool" where
  "fval_close eps a b =
     (case (a, b) of
        (Fin x, Fin y) \<Rightarrow> \<bar>x - y\<bar> \<le> eps
      | _ \<Rightarrow> a = b)"

definition frame_close :: "real \<Rightarrow> frame \<Rightarrow> frame \<Rightarrow> bool" where
  "frame_close eps d d' \<longleftrightarrow>
     type_col d' = type_col d \<and> label_col d' = label_col d \<and>
     list_all2 (\<lambda>(name, c) (name', c'). name' = name \<and> list_all2 (fval_close eps) c c')
       (feature_cols d) (feature_cols d')"

section \<open>Training harness (\<^verbatim>\<open>NNBaseModel\<close> and \<^verbatim>\<open>run_training\<close>)\<close>

subsection \<open>Stateful computations that may raise\<close>

text \<open>
  A method of the model is a function from the state to an outcome and the state it
  leaves behind; the outcome is the returned value or the exception raised. The state
  is returned in both cases, since an exception does not undo mutations.
\<close>

type_synonym ('s, 'a) prog = "'s \<Rightarrow> (error + 'a) \<times> 's"

definition ret :: "'a \<Rightarrow> ('s, 'a) prog" where
  "ret x s = (Inr x, s)"

definition raise :: "error \<Rightarrow> ('s, 'a) prog" where
  "raise e s = (Inl e, s)"

definition seq :: "('s, 'a) prog \<Rightarrow> ('a \<Rightarrow> ('s, 'b) prog) \<Rightarrow> ('s, 'b) prog" where
  "seq m f s = (case m s of (Inl e, s') \<Rightarrow> (Inl e, s') | (Inr x, s') \<Rightarrow> f x s')"

text \<open>A result computed without the state, as a step of a stateful computation.\<close>

definition lift :: "error + 'a \<Rightarrow> ('s, 'a) prog" where
  "lift r s = (r, s)"

subsection \<open>Experiment result record\<close>

text \<open>
  The confusion breakdown \<^verbatim>\<open>make_up\<close>: a dict from the predicted class to a dict from
  the true class to a count.
\<close>

type_synonym make_up = "int \<rightharpoonup> (int \<rightharpoonup> nat)"

text \<open>
  Modelled from the spec: the dataclass \<^verbatim>\<open>NeuralNetworkExperimentResult\<close> of
  \<^verbatim>\<open>mlproject.data_processing\<close>, which is not among the sources. It carries the run
  metadata given to its constructor and the six per-epoch series, which start empty.
\<close>

record NeuralNetworkExperimentResult =
  learning_rate :: real
  training_batch_size :: nat
  optimizer_name :: string
  criterion_name :: string
  epochs :: int
  training_losses :: "real list"
  training_accuracies :: "real list"
  testing_losses :: "real list"
  testing_accuracies :: "real list"
  training_classification_results :: "make_up list"
  testing_classification_results :: "make_up list"

definition new_NeuralNetworkExperimentResult ::
  "real \<Rightarrow> nat \<Rightarrow> string \<Rightarrow> string \<Rightarrow> int \<Rightarrow> NeuralNetworkExperimentResult" where
  "new_NeuralNetworkExperimentResult lr bs opt crit n =
     \<lparr>learning_rate = lr, training_batch_size = bs, optimizer_name = opt,
      criterion_name = crit, epochs = n,
      training_losses = [], training_accuracies = [], testing_losses = [],
      testing_accuracies = [], training_classification_results = [],
      testing_classification_results = []\<rparr>"

text \<open>The record with one more entry at the end of each of its six series.\<close>

definition append_epoch ::
  "NeuralNetworkExperimentResult \<Rightarrow> real \<Rightarrow> real \<Rightarrow> real \<Rightarrow> real \<Rightarrow> make_up \<Rightarrow> make_up \<Rightarrow>
   NeuralNetworkExperimentResult" where
  "append_epoch r training_loss training_accuracy testing_loss testing_accuracy
       tr_make_up test_make_up =
     r\<lparr>training_losses := training_losses r @ [training_loss],
       training_accuracies := training_accuracies r @ [training_accuracy],
       testing_losses := testing_losses r @ [testing_loss],
       testing_accuracies := testing_accuracies r @ [testing_accuracy],
       training_classification_results := training_classification_results r @ [tr_make_up],
       testing_classification_results := testing_classification_results r @ [test_make_up]\<rparr>"

subsection \<open>State and the operations of the tensor library\<close>

text \<open>
  The state a training run works on: the parameters of the model together with the state
  of its optimizer, the mode flag \<^verbatim>\<open>Module.training\<close>, the random generator, and the
  experiment result record the run fills in.
\<close>

record ('p, 'g) harness_state =
  params :: 'p
  training :: bool
  rng :: 'g
  exp_result :: NeuralNetworkExperimentResult

text \<open>
  What the harness calls in the tensor library, as parameters. Each reads the
  parameters and the mode flag, may draw from the generator and may raise:
  \<^item> \<open>predict\<close>: \<^verbatim>\<open>torch.argmax(torch.softmax(self(x), dim=1), dim=1)\<close> for a batch;
  \<^item> \<open>batch_loss\<close>: \<^verbatim>\<open>criterion(self(x), labels).item()\<close>;
  \<^item> \<open>train_step\<close>: \<^verbatim>\<open>zero_grad\<close>, forward pass, loss, \<^verbatim>\<open>backward\<close> and
    \<^verbatim>\<open>optimizer.step\<close>, yielding the new parameters;
  \<^item> \<open>randperm\<close>: the order a shuffling sampler draws for \<open>n\<close> samples.
\<close>

record ('x, 'p, 'g) torch =
  predict :: "'p \<Rightarrow> bool \<Rightarrow> 'x list \<Rightarrow> 'g \<Rightarrow> (error + int list) \<times> 'g"
  batch_loss :: "'p \<Rightarrow> bool \<Rightarrow> 'x list \<Rightarrow> int list \<Rightarrow> 'g \<Rightarrow> (error + real) \<times> 'g"
  train_step :: "'p \<Rightarrow> bool \<Rightarrow> 'x list \<Rightarrow> int list \<Rightarrow> 'g \<Rightarrow> (error + 'p) \<times> 'g"
  randperm :: "nat \<Rightarrow> 'g \<Rightarrow> nat list \<times> 'g"

definition call_predict ::
  "('x, 'p, 'g) torch \<Rightarrow> 'x list \<Rightarrow> (('p, 'g) harness_state, int list) prog" where
  "call_predict T xs s =
     (case predict T (params s) (training s) xs (rng s) of
        (r, g) \<Rightarrow> (r, s\<lparr>rng := g\<rparr>))"

definition call_batch_loss ::
  "('x, 'p, 'g) torch \<Rightarrow> 'x list \<Rightarrow> int list \<Rightarrow> (('p, 'g) harness_state, real) prog" where
  "call_batch_loss T xs ys s =
     (case batch_loss T (params s) (training s) xs ys (rng s) of
        (r, g) \<Rightarrow> (r, s\<lparr>rng := g\<rparr>))"

definition call_train_step ::
  "('x, 'p, 'g) torch \<Rightarrow> 'x list \<Rightarrow> int list \<Rightarrow> (('p, 'g) harness_state, unit) prog" where
  "call_train_step T xs ys s =
     (case train_step T (params s) (training s) xs ys (rng s) of
        (Inl e, g) \<Rightarrow> (Inl e, s\<lparr>rng := g\<rparr>)
      | (Inr p, g) \<Rightarrow> (Inr (), s\<lparr>params := p, rng := g\<rparr>))"

subsection \<open>Data loader\<close>

record 'x DataLoader =
  dataset :: "('x \<times> int) list"
  batch_size :: nat
  shuffle :: bool

text \<open>
  The constructor \<^verbatim>\<open>DataLoader(dataset, batch_size=..., shuffle=...)\<close>: a shuffling
  loader builds a random sampler, which refuses an empty dataset, and a batch size of 0
  is refused; both with \<^verbatim>\<open>ValueError\<close>.
\<close>

definition new_DataLoader :: "('x \<times> int) list \<Rightarrow> nat \<Rightarrow> bool \<Rightarrow> error + 'x DataLoader" where
  "new_DataLoader ds bs sh =
     (if sh \<and> ds = [] then Inl (ValueError {})
      else if bs = 0 then Inl (ValueError {})
      else Inr \<lparr>dataset = ds, batch_size = bs, shuffle = sh\<rparr>)"

text \<open>Consecutive chunks of \<open>n\<close> elements; the last one may be shorter (\<^verbatim>\<open>drop_last=False\<close>).\<close>

function chunks :: "nat \<Rightarrow> 'a list \<Rightarrow> 'a list list" where
  "chunks n xs = (if n = 0 \<or> xs = [] then [] else take n xs # chunks n (drop n xs))"
  by pat_completeness auto
termination
  by (relation "measure (\<lambda>(n, xs). length xs)") auto

declare chunks.simps [simp del]

text \<open>The batches of one pass, for the order in which the sampler yields the indices.\<close>

definition batches :: "'x DataLoader \<Rightarrow> nat list \<Rightarrow> ('x list \<times> int list) list" where
  "batches dl order =
     map (\<lambda>idxs. (map (\<lambda>i. fst (dataset dl ! i)) idxs, map (\<lambda>i. snd (dataset dl ! i)) idxs))
       (chunks (batch_size dl) order)"

text \<open>
  Starting an iteration over the loader: a shuffling loader draws a fresh order from the
  generator, the other one goes through the dataset in order.
\<close>

definition iter_loader ::
  "('x, 'p, 'g) torch \<Rightarrow> 'x DataLoader \<Rightarrow>
   (('p, 'g) harness_state, ('x list \<times> int list) list) prog" where
  "iter_loader T dl s =
     (let n = length (dataset dl)
      in if shuffle dl
         then (case randperm T n (rng s) of
                 (order, g) \<Rightarrow> (Inr (batches dl order), s\<lparr>rng := g\<rparr>))
         else (Inr (batches dl [0..<n]), s))"

text \<open>\<^verbatim>\<open>len(data_loader)\<close>: the number of batches.\<close>

definition len_loader :: "'x DataLoader \<Rightarrow> nat" where
  "len_loader dl = (length (dataset dl) + batch_size dl - 1) div batch_size dl"

subsection \<open>\<^verbatim>\<open>compute_accuracy\<close> and \<^verbatim>\<open>compute_loss\<close>\<close>

text \<open>
  \<^verbatim>\<open>(predicted == text_labels).sum().item()\<close>: element-wise comparison of two 1-D tensors;
  a tensor of one element is broadcast, other unequal lengths raise.
\<close>

definition count_equal :: "int list \<Rightarrow> int list \<Rightarrow> error + nat" where
  "count_equal predicted labels =
     (if length predicted = length labels
      then Inr (length (filter (\<lambda>(i, j). i = j) (zip predicted labels)))
      else if length predicted = 1
      then Inr (length (filter (\<lambda>j. hd predicted = j) labels))
      else if length labels = 1
      then Inr (length (filter (\<lambda>i. i = hd labels) predicted))
      else Inl RuntimeError)"

text \<open>
  \<^verbatim>\<open>make_up[i][j] += 1\<close> on the nested \<^verbatim>\<open>defaultdict\<close>: a missing row is created empty,
  a missing count starts at 0.
\<close>

definition bump :: "make_up \<Rightarrow> int \<Rightarrow> int \<Rightarrow> make_up" where
  "bump mk i j =
     (let row = (case mk i of None \<Rightarrow> Map.empty | Some r \<Rightarrow> r);
          cnt = (case row j of None \<Rightarrow> 0 | Some c \<Rightarrow> c)
      in mk(i \<mapsto> row(j \<mapsto> cnt + 1)))"

fun accuracy_loop ::
  "('x, 'p, 'g) torch \<Rightarrow> ('x list \<times> int list) list \<Rightarrow> nat \<Rightarrow> make_up \<Rightarrow>
   (('p, 'g) harness_state, nat \<times> make_up) prog" where
  "accuracy_loop T [] correct mk s = (Inr (correct, mk), s)"
| "accuracy_loop T ((text_vectors, text_labels) # rest) correct mk s =
     (case call_predict T text_vectors s of
        (Inl e, s1) \<Rightarrow> (Inl e, s1)
      | (Inr predicted, s1) \<Rightarrow>
          (case count_equal predicted text_labels of
             Inl e \<Rightarrow> (Inl e, s1)
           | Inr k \<Rightarrow>
               accuracy_loop T rest (correct + k)
                 (fold (\<lambda>(i, j) m. bump m i j) (zip predicted text_labels) mk) s1))"

definition compute_accuracy ::
  "('x, 'p, 'g) torch \<Rightarrow> 'x DataLoader \<Rightarrow>
   (('p, 'g) harness_state, nat \<times> nat \<times> real \<times> make_up) prog" where
  "compute_accuracy T data_loader =
     seq (iter_loader T data_loader) (\<lambda>bs.
     seq (accuracy_loop T bs 0 Map.empty) (\<lambda>(correct, mk).
       (let total_items = length (dataset data_loader)
        in if total_items = 0 then raise ZeroDivisionError
           else ret (correct, total_items, real correct / real total_items, mk))))"

fun loss_loop ::
  "('x, 'p, 'g) torch \<Rightarrow> ('x list \<times> int list) list \<Rightarrow> real \<Rightarrow>
   (('p, 'g) harness_state, real) prog" where
  "loss_loop T [] loss s = (Inr loss, s)"
| "loss_loop T ((text_vectors, text_labels) # rest) loss s =
     (case call_batch_loss T text_vectors text_labels s of
        (Inl e, s1) \<Rightarrow> (Inl e, s1)
      | (Inr l, s1) \<Rightarrow> loss_loop T rest (loss + l) s1)"

definition compute_loss ::
  "('x, 'p, 'g) torch \<Rightarrow> 'x DataLoader \<Rightarrow> (('p, 'g) harness_state, real) prog" where
  "compute_loss T data_loader =
     seq (iter_loader T data_loader) (\<lambda>bs.
     seq (loss_loop T bs 0) (\<lambda>loss.
       if len_loader data_loader = 0 then raise ZeroDivisionError
       else ret (loss / real (len_loader data_loader))))"

text \<open>The sum of all counts of a confusion breakdown.\<close>

definition row_total :: "(int \<rightharpoonup> nat) \<Rightarrow> nat" where
  "row_total r = (\<Sum>j \<in> dom r. the (r j))"

definition make_up_total :: "make_up \<Rightarrow> nat" where
  "make_up_total mk = (\<Sum>i \<in> dom mk. row_total (the (mk i)))"

subsection \<open>Evaluation after an epoch\<close>

definition eval_mode :: "(('p, 'g) harness_state, unit) prog" where
  "eval_mode s = (Inr (), s\<lparr>training := False\<rparr>)"

definition train_mode :: "(('p, 'g) harness_state, unit) prog" where
  "train_mode s = (Inr (), s\<lparr>training := True\<rparr>)"

text \<open>
  \<^verbatim>\<open>with self.validation_context(): body\<close>. The context manager enters with
  \<^verbatim>\<open>self.eval()\<close>, and its \<^verbatim>\<open>finally\<close> clause runs \<^verbatim>\<open>self.train()\<close> when the body has
  returned and when it has raised; the outcome of the body is passed on.
\<close>

definition validation_context ::
  "(('p, 'g) harness_state, 'a) prog \<Rightarrow> (('p, 'g) harness_state, 'a) prog" where
  "validation_context body s =
     (case eval_mode s of
        (_, s1) \<Rightarrow>
          (case body s1 of
             (r, s2) \<Rightarrow> (case train_mode s2 of (_, s3) \<Rightarrow> (r, s3))))"

definition update_exp ::
  "(NeuralNetworkExperimentResult \<Rightarrow> NeuralNetworkExperimentResult) \<Rightarrow>
   (('p, 'g) harness_state, unit) prog" where
  "update_exp f s = (Inr (), s\<lparr>exp_result := f (exp_result s)\<rparr>)"

text \<open>\<^verbatim>\<open>_validate_after_epoch\<close>, the body run inside the validation context.\<close>

definition validate_after_epoch_body ::
  "('x, 'p, 'g) torch \<Rightarrow> nat \<Rightarrow> 'x DataLoader \<Rightarrow> 'x DataLoader \<Rightarrow>
   (('p, 'g) harness_state, unit) prog" where
  "validate_after_epoch_body T epoch train_loader test_loader =
     seq (compute_loss T train_loader) (\<lambda>training_loss.
     seq (update_exp (\<lambda>r. r\<lparr>training_losses := training_losses r @ [training_loss]\<rparr>)) (\<lambda>_.
     seq (compute_accuracy T train_loader) (\<lambda>(_, _, training_accuracy, tr_make_up).
     seq (update_exp (\<lambda>r. r\<lparr>training_accuracies := training_accuracies r @ [training_accuracy]\<rparr>)) (\<lambda>_.
     seq (compute_loss T test_loader) (\<lambda>testing_loss.
     seq (update_exp (\<lambda>r. r\<lparr>testing_losses := testing_losses r @ [testing_loss]\<rparr>)) (\<lambda>_.
     seq (compute_accuracy T test_loader) (\<lambda>(_, _, testing_accuracy, test_make_up).
     seq (update_exp (\<lambda>r. r\<lparr>testing_accuracies := testing_accuracies r @ [testing_accuracy]\<rparr>)) (\<lambda>_.
     seq (update_exp (\<lambda>r. r\<lparr>training_classification_results :=
                               training_classification_results r @ [tr_make_up]\<rparr>)) (\<lambda>_.
     update_exp (\<lambda>r. r\<lparr>testing_classification_results :=
                          testing_classification_results r @ [test_make_up]\<rparr>))))))))))"

definition validate_after_epoch ::
  "('x, 'p, 'g) torch \<Rightarrow> nat \<Rightarrow> 'x DataLoader \<Rightarrow> 'x DataLoader \<Rightarrow>
   (('p, 'g) harness_state, unit) prog" where
  "validate_after_epoch T epoch train_loader test_loader =
     validation_context (validate_after_epoch_body T epoch train_loader test_loader)"

subsection \<open>\<^verbatim>\<open>run_training\<close>\<close>

fun train_batches ::
  "('x, 'p, 'g) torch \<Rightarrow> ('x list \<times> int list) list \<Rightarrow> (('p, 'g) harness_state, unit) prog" where
  "train_batches T [] s = (Inr (), s)"
| "train_batches T ((text_vectors, text_labels) # rest) s =
     (case call_train_step T text_vectors text_labels s of
        (Inl e, s1) \<Rightarrow> (Inl e, s1)
      | (Inr _, s1) \<Rightarrow> train_batches T rest s1)"

fun epoch_loop ::
  "('x, 'p, 'g) torch \<Rightarrow> 'x DataLoader \<Rightarrow> 'x DataLoader \<Rightarrow> nat list \<Rightarrow>
   (('p, 'g) harness_state, unit) prog" where
  "epoch_loop T train_loader test_loader [] s = (Inr (), s)"
| "epoch_loop T train_loader test_loader (epoch # rest) s =
     (case seq (iter_loader T train_loader) (train_batches T) s of
        (Inl e, s1) \<Rightarrow> (Inl e, s1)
      | (Inr _, s1) \<Rightarrow>
          (case validate_after_epoch T epoch train_loader test_loader s1 of
             (Inl e, s2) \<Rightarrow> (Inl e, s2)
           | (Inr _, s2) \<Rightarrow> epoch_loop T train_loader test_loader rest s2))"

text \<open>
  \<^verbatim>\<open>run_training\<close>, the same in \<^verbatim>\<open>LogisticRegression\<close>, \<^verbatim>\<open>SimpleMLP\<close> and \<^verbatim>\<open>CNN2D\<close>:
  two loaders of batch size 32 are constructed, the training one shuffling; then a new
  result record from the attributes of the model; \<^verbatim>\<open>range(epochs)\<close> passes of training
  and evaluation; the record is returned.
\<close>

definition run_training ::
  "('x, 'p, 'g) torch \<Rightarrow> real \<Rightarrow> string \<Rightarrow> string \<Rightarrow>
   ('x \<times> int) list \<Rightarrow> ('x \<times> int) list \<Rightarrow> int \<Rightarrow>
   (('p, 'g) harness_state, NeuralNetworkExperimentResult) prog" where
  "run_training T self_learning_rate self_optimizer_name self_criterion_name
       train_dataset test_dataset n_epochs =
     (let training_batch_size = 32
      in seq (lift (new_DataLoader train_dataset training_batch_size True)) (\<lambda>train_loader.
         seq (lift (new_DataLoader test_dataset 32 False)) (\<lambda>test_loader.
         seq (update_exp (\<lambda>_. new_NeuralNetworkExperimentResult self_learning_rate
                 training_batch_size self_optimizer_name self_criterion_name n_epochs)) (\<lambda>_.
         seq (epoch_loop T train_loader test_loader [0..<nat n_epochs]) (\<lambda>_.
         (\<lambda>s. (Inr (exp_result s), s)))))))"

subsection \<open>Components of the state a computation leaves alone\<close>

text \<open>
  \<open>preserves f m\<close>: whatever \<open>m\<close> does, returning or raising, the component \<open>f\<close> of the
  state is afterwards what it was before.
\<close>

definition preserves :: "('s \<Rightarrow> 'b) \<Rightarrow> ('s, 'a) prog \<Rightarrow> bool" where
  "preserves f m \<longleftrightarrow> (\<forall>s r s'. m s = (r, s') \<longrightarrow> f s' = f s)"

section \<open>Properties of the class mapping\<close>

lemma fold_enumerate_notin:
  "y \<notin> set xs \<Longrightarrow> fold (\<lambda>(i, x) m. m(x \<mapsto> int i)) (enumerate k xs) m0 y = m0 y"
  by (induction xs arbitrary: k m0) auto

lemma fold_enumerate_nth:
  "distinct xs \<Longrightarrow> i < length xs \<Longrightarrow>
   fold (\<lambda>(i, x) m. m(x \<mapsto> int i)) (enumerate k xs) m0 (xs ! i) = Some (int (k + i))"
proof (induction xs arbitrary: k m0 i)
  case Nil
  then show ?case by simp
next
  case (Cons x xs)
  show ?case
  proof (cases i)
    case 0
    from Cons.prems have "x \<notin> set xs" by simp
    from fold_enumerate_notin [OF this, of "Suc k" "m0(x \<mapsto> int k)"] 0
    show ?thesis by (simp del: fun_upd_apply) simp
  next
    case (Suc j)
    with Cons.prems Cons.IH [of j "Suc k" "m0(x \<mapsto> int k)"] show ?thesis by simp
  qed
qed

lemma enumerate_dict_nth:
  "distinct xs \<Longrightarrow> i < length xs \<Longrightarrow> enumerate_dict xs (xs ! i) = Some (int i)"
  unfolding enumerate_dict_def using fold_enumerate_nth [of xs i 0 Map.empty] by simp

lemma enumerate_dict_notin: "y \<notin> set xs \<Longrightarrow> enumerate_dict xs y = None"
  unfolding enumerate_dict_def by (simp add: fold_enumerate_notin)

lemma enumerate_dict_dom: "distinct xs \<Longrightarrow> dom (enumerate_dict xs) = set xs"
proof (intro set_eqI iffI)
  fix y assume "y \<in> dom (enumerate_dict xs)"
  then show "y \<in> set xs" using enumerate_dict_notin [of y xs] by (cases "y \<in> set xs") auto
next
  fix y assume "distinct xs" "y \<in> set xs"
  then obtain i where "i < length xs" "xs ! i = y" by (auto simp: in_set_conv_nth)
  with \<open>distinct xs\<close> show "y \<in> dom (enumerate_dict xs)"
    using enumerate_dict_nth [of xs i] by auto
qed

lemma enumerate_dict_Some:
  assumes "distinct xs" "enumerate_dict xs y = Some c"
  shows "\<exists>i<length xs. xs ! i = y \<and> c = int i"
proof -
  have "y \<in> set xs" using assms(2) enumerate_dict_notin [of y xs] by force
  then obtain i where i: "i < length xs" "xs ! i = y" by (auto simp: in_set_conv_nth)
  with assms enumerate_dict_nth [of xs i] show ?thesis by auto
qed

lemma enumerate_dict_ran: 
  assumes "distinct xs" shows "ran (enumerate_dict xs) = int ` {0..<length xs}"
proof (intro set_eqI iffI)
  fix c assume "c \<in> ran (enumerate_dict xs)"
  then obtain y where "enumerate_dict xs y = Some c" by (auto simp: ran_def)
  with assms enumerate_dict_Some [of xs y c] show "c \<in> int ` {0..<length xs}" by auto
next
  fix c assume "c \<in> int ` {0..<length xs}"
  then obtain i where "i < length xs" "c = int i" by auto
  with assms enumerate_dict_nth [of xs i] show "c \<in> ran (enumerate_dict xs)"
    by (auto simp: ran_def)
qed

lemma article_types_sorted_list:
  "sort (unique xs) = sorted_list_of_set (set xs)"
  by (simp add: unique_def sorted_list_of_set_sort_remdups)

text \<open>
  Claim C4. For every collection of type values with \<open>n\<close> distinct values, the class
  mapping is defined exactly on the values that occur, its image is \<open>{0, ..., n-1}\<close>,
  the \<open>i\<close>-th value in ascending order is mapped to \<open>i\<close>, and the mapping is strictly
  order-preserving.
\<close>

theorem find_classnum_mapping_dense_ordered:
  fixes type_column :: "'a::linorder list"
  shows "dom (find_classnum_mapping type_column) = set type_column \<and>
         ran (find_classnum_mapping type_column) = int ` {0..<card (set type_column)} \<and>
         (\<forall>i<card (set type_column).
            find_classnum_mapping type_column (sorted_list_of_set (set type_column) ! i) = Some (int i)) \<and>
         (\<forall>v1 v2 c1 c2. find_classnum_mapping type_column v1 = Some c1 \<longrightarrow>
            find_classnum_mapping type_column v2 = Some c2 \<longrightarrow> v1 < v2 \<longrightarrow> c1 < c2)"
proof -
  define L where "L = sorted_list_of_set (set type_column)"
  have m: "find_classnum_mapping type_column = enumerate_dict L"
    by (simp add: find_classnum_mapping_def article_types_sorted_list L_def)
  have dL: "distinct L" and sL: "sorted L" and setL: "set L = set type_column"
    and lenL: "length L = card (set type_column)"
    by (simp_all add: L_def)
  have ord: "c1 < c2" if h: "enumerate_dict L v1 = Some c1" "enumerate_dict L v2 = Some c2" "v1 < v2"
    for v1 v2 c1 c2
  proof -
    obtain i where i: "i < length L" "L ! i = v1" "c1 = int i"
      using enumerate_dict_Some [OF dL h(1)] by auto
    obtain j where j: "j < length L" "L ! j = v2" "c2 = int j"
      using enumerate_dict_Some [OF dL h(2)] by auto
    have "i < j"
    proof (rule ccontr)
      assume "\<not> i < j"
      then have "j \<le> i" by simp
      with sL i(1) have "L ! j \<le> L ! i" by (simp add: sorted_nth_mono)
      with i j h(3) show False by simp
    qed
    with i j show ?thesis by simp
  qed
  show ?thesis
    unfolding m using enumerate_dict_dom [OF dL] enumerate_dict_ran [OF dL] enumerate_dict_nth [OF dL] ord
    unfolding setL lenL L_def [symmetric] by blast
qed

theorem find_classnum_mapping_witness:
  "find_classnum_mapping [''human'', ''bot'', ''human'', ''ai''] ''ai'' = Some 0 \<and>
   find_classnum_mapping [''human'', ''bot'', ''human'', ''ai''] ''bot'' = Some 1 \<and>
   ''ai'' < ''bot'' \<and> (0::int) < 1"
proof -
  have a: "find_classnum_mapping [''human'', ''bot'', ''human'', ''ai''] ''ai'' = Some 0"
    by (simp add: find_classnum_mapping_def unique_def enumerate_dict_def)
  have b: "find_classnum_mapping [''human'', ''bot'', ''human'', ''ai''] ''bot'' = Some 1"
    by (simp add: find_classnum_mapping_def unique_def enumerate_dict_def)
  have c: "''ai'' < ''bot''" by simp
  from find_classnum_mapping_dense_ordered [of "[''human'', ''bot'', ''human'', ''ai'']"] a b c
  show ?thesis by blast
qed

section \<open>Properties of the lazy dataset\<close>

lemma missing_types_eq: "missing_types d m = {t \<in> row_type ` set d. m t = None}"
  by (auto simp: missing_types_def unique_def dom_def)

lemma missing_types_code [code]:
  "missing_types d m = Set.filter (\<lambda>t. m t = None) (set (unique (map row_type d)))"
  by (auto simp: missing_types_def)

text \<open>
  Claim C2. Constructing a lazy dataset fails, at construction and so before any item
  can be accessed, exactly when some type of its records has no entry in the supplied
  mapping; the exception is the \<^verbatim>\<open>ValueError\<close> naming the missing types (the
  specification calls it \<open>MissingMappingError\<close>). When every observed type has an
  entry, construction succeeds and yields the dataset.
\<close>

theorem lazy_construction_checks_mapping:
  "new_LazyHumanChatBotDataset d e m =
     (if \<exists>r \<in> set d. m (row_type r) = None
      then Inl (ValueError {t \<in> row_type ` set d. m t = None})
      else Inr \<lparr>data = d, embedder = e, article_type_to_classnum = m\<rparr>)"
  unfolding new_LazyHumanChatBotDataset_def missing_types_eq by auto

theorem lazy_construction_checks_mapping_witness:
  "new_LazyHumanChatBotDataset
     [\<lparr>row_type = ''human'', row_text = ''hello''\<rparr>, \<lparr>row_type = ''gpt'', row_text = ''hi''\<rparr>]
     length [''human'' \<mapsto> 0]
   = Inl (ValueError {''gpt''})
   \<and> new_LazyHumanChatBotDataset
     [\<lparr>row_type = ''human'', row_text = ''hello''\<rparr>, \<lparr>row_type = ''gpt'', row_text = ''hi''\<rparr>]
     length [''human'' \<mapsto> 1, ''gpt'' \<mapsto> 0]
   = Inr \<lparr>data = [\<lparr>row_type = ''human'', row_text = ''hello''\<rparr>, \<lparr>row_type = ''gpt'', row_text = ''hi''\<rparr>],
          embedder = length, article_type_to_classnum = [''human'' \<mapsto> 1, ''gpt'' \<mapsto> 0]\<rparr>"
proof -
  have s: "{t \<in> row_type ` set [\<lparr>row_type = ''human'', row_text = ''hello''\<rparr>, \<lparr>row_type = ''gpt'', row_text = ''hi''\<rparr>].
             [''human'' \<mapsto> (0::int)] t = None} = {''gpt''}"
    by auto
  show ?thesis
    using lazy_construction_checks_mapping
            [of "[\<lparr>row_type = ''human'', row_text = ''hello''\<rparr>, \<lparr>row_type = ''gpt'', row_text = ''hi''\<rparr>]"
                length "[''human'' \<mapsto> 0]"]
          lazy_construction_checks_mapping
            [of "[\<lparr>row_type = ''human'', row_text = ''hello''\<rparr>, \<lparr>row_type = ''gpt'', row_text = ''hi''\<rparr>]"
                length "[''human'' \<mapsto> 1, ''gpt'' \<mapsto> 0]"]
    unfolding s by simp
qed

text \<open>
  Claim C10. The lazy dataset places no condition on the values of the mapping: whenever
  its keys cover the types of the records, construction succeeds, and every access to a
  row of the data returns that row's embedded text together with exactly the value the
  mapping holds for the row's type.
\<close>

theorem lazy_labels_are_raw_mapping_values:
  assumes "row_type ` set d \<subseteq> dom m"
  shows "new_LazyHumanChatBotDataset d e m =
           Inr \<lparr>data = d, embedder = e, article_type_to_classnum = m\<rparr> \<and>
         (\<forall>idx row. row_at d idx = Inr row \<longrightarrow>
            (\<exists>c. m (row_type row) = Some c \<and>
              lazy_getitem \<lparr>data = d, embedder = e, article_type_to_classnum = m\<rparr> idx =
                Inr (e (row_text row), c)))"
proof -
  have "missing_types d m = {}" using assms by (auto simp: missing_types_eq)
  then have c: "new_LazyHumanChatBotDataset d e m =
           Inr \<lparr>data = d, embedder = e, article_type_to_classnum = m\<rparr>"
    by (simp add: new_LazyHumanChatBotDataset_def)
  have g: "\<exists>c. m (row_type row) = Some c \<and>
              lazy_getitem \<lparr>data = d, embedder = e, article_type_to_classnum = m\<rparr> idx =
                Inr (e (row_text row), c)" if r: "row_at d idx = Inr row" for idx row
  proof -
    from r have "row \<in> set d" by (auto simp: row_at_def Let_def split: if_splits)
    with assms obtain c where "m (row_type row) = Some c" by auto
    with r show ?thesis by (simp add: lazy_getitem_def get_class_num_def)
  qed
  from c g show ?thesis by blast
qed

theorem lazy_labels_are_raw_mapping_values_witness:
  "lazy_getitem
     \<lparr>data = [\<lparr>row_type = ''human'', row_text = ''hello''\<rparr>, \<lparr>row_type = ''gpt'', row_text = ''hi''\<rparr>],
      embedder = length, article_type_to_classnum = [''human'' \<mapsto> - 7, ''gpt'' \<mapsto> 1000]\<rparr> 1
   = Inr (2, 1000)"
proof -
  let ?d = "[\<lparr>row_type = ''human'', row_text = ''hello''\<rparr>, \<lparr>row_type = ''gpt'', row_text = ''hi''\<rparr>]"
  let ?m = "[''human'' \<mapsto> - 7, ''gpt'' \<mapsto> (1000::int)]"
  have h: "row_type ` set ?d \<subseteq> dom ?m" by simp
  have r: "row_at ?d 1 = Inr \<lparr>row_type = ''gpt'', row_text = ''hi''\<rparr>" by (simp add: row_at_def)
  from lazy_labels_are_raw_mapping_values [OF h, of length] r
  have "\<exists>c. ?m (row_type \<lparr>row_type = ''gpt'', row_text = ''hi''\<rparr>) = Some c \<and>
     lazy_getitem \<lparr>data = ?d, embedder = length, article_type_to_classnum = ?m\<rparr> 1
       = Inr (length (row_text \<lparr>row_type = ''gpt'', row_text = ''hi''\<rparr>), c)"
    by blast
  then show ?thesis by simp
qed

section \<open>Properties of rounding to the 32-bit format\<close>

lemma round_half_even_bounds: "\<lfloor>t\<rfloor> \<le> round_half_even t \<and> round_half_even t \<le> \<lfloor>t\<rfloor> + 1"
  by (simp add: round_half_even_def Let_def)

lemma round_half_even_of_int: "round_half_even (of_int k) = k"
  by (simp add: round_half_even_def)

lemma round_half_even_mono:
  assumes "s \<le> t"
  shows "round_half_even s \<le> round_half_even t"
proof (cases "\<lfloor>s\<rfloor> = \<lfloor>t\<rfloor>")
  case True
  with assms show ?thesis by (auto simp: round_half_even_def Let_def)
next
  case False
  moreover from assms have "\<lfloor>s\<rfloor> \<le> \<lfloor>t\<rfloor>" by (rule floor_mono)
  ultimately have "\<lfloor>s\<rfloor> + 1 \<le> \<lfloor>t\<rfloor>" by simp
  with round_half_even_bounds [of s] round_half_even_bounds [of t] show ?thesis by linarith
qed

lemma quantum_search_ge: "e \<le> quantum_search e x"
proof (induction e x rule: quantum_search.induct)
  case (1 e x)
  show ?case
  proof (cases "104 \<le> e \<or> \<bar>x\<bar> < 2 powi (e + 24)")
    case True
    then show ?thesis by (subst quantum_search.simps) simp
  next
    case False
    with 1 have "e + 1 \<le> quantum_search (e + 1) x" by simp
    with False show ?thesis by (subst quantum_search.simps) simp
  qed
qed

lemma quantum_search_le: "e \<le> 104 \<Longrightarrow> quantum_search e x \<le> 104"
proof (induction e x rule: quantum_search.induct)
  case (1 e x)
  show ?case
  proof (cases "104 \<le> e \<or> \<bar>x\<bar> < 2 powi (e + 24)")
    case True
    with 1(2) show ?thesis by (subst quantum_search.simps) simp
  next
    case False
    with 1 have "quantum_search (e + 1) x \<le> 104" by simp
    with False show ?thesis by (subst quantum_search.simps) simp
  qed
qed

lemma quantum_search_upper:
  "quantum_search e x < 104 \<Longrightarrow> \<bar>x\<bar> < 2 powi (quantum_search e x + 24)"
proof (induction e x rule: quantum_search.induct)
  case (1 e x)
  show ?case
  proof (cases "104 \<le> e \<or> \<bar>x\<bar> < 2 powi (e + 24)")
    case True
    then have q: "quantum_search e x = e" by (subst quantum_search.simps) simp
    with 1(2) True show ?thesis by simp
  next
    case False
    then have q: "quantum_search e x = quantum_search (e + 1) x"
      by (subst quantum_search.simps) simp
    with 1 False show ?thesis by simp
  qed
qed

lemma quantum_search_lower:
  "e < quantum_search e x \<Longrightarrow> 2 powi (quantum_search e x + 23) \<le> \<bar>x\<bar>"
proof (induction e x rule: quantum_search.induct)
  case (1 e x)
  show ?case
  proof (cases "104 \<le> e \<or> \<bar>x\<bar> < 2 powi (e + 24)")
    case True
    then have "quantum_search e x = e" by (subst quantum_search.simps) simp
    with 1(2) show ?thesis by simp
  next
    case False
    then have q: "quantum_search e x = quantum_search (e + 1) x"
      by (subst quantum_search.simps) simp
    show ?thesis
    proof (cases "e + 1 < quantum_search (e + 1) x")
      case True
      with 1(1) False q show ?thesis by simp
    next
      case False
      with quantum_search_ge [of "e + 1" x] have "quantum_search (e + 1) x = e + 1" by simp
      with q \<open>\<not> (104 \<le> e \<or> \<bar>x\<bar> < 2 powi (e + 24))\<close> show ?thesis
        by (simp add: add.commute)
    qed
  qed
qed

lemma quantum_exp_range: "- 149 \<le> quantum_exp x" "quantum_exp x \<le> 104"
  by (simp_all add: quantum_exp_def quantum_search_ge quantum_search_le)

lemma powi_mono2: "a \<le> b \<Longrightarrow> (2::real) powi a \<le> 2 powi b"
  by (rule power_int_increasing) simp_all

lemma quantum_exp_eq:
  assumes "- 149 \<le> e" and "e \<le> 104"
    and "e = - 149 \<or> 2 powi (e + 23) \<le> \<bar>x\<bar>"
    and "e = 104 \<or> \<bar>x\<bar> < 2 powi (e + 24)"
  shows "quantum_exp x = e"
proof (rule ccontr)
  assume ne: "quantum_exp x \<noteq> e"
  let ?q = "quantum_exp x"
  show False
  proof (cases "?q < e")
    case True
    with assms(2) have "?q < 104" by simp
    then have "\<bar>x\<bar> < 2 powi (?q + 24)"
      unfolding quantum_exp_def by (rule quantum_search_upper)
    moreover from True have "(2::real) powi (?q + 24) \<le> 2 powi (e + 23)"
      by (intro powi_mono2) simp
    moreover from True quantum_exp_range(1) [of x] assms(3) have "2 powi (e + 23) \<le> \<bar>x\<bar>"
      by auto
    ultimately show False by simp
  next
    case False
    with ne have gt: "e < ?q" by simp
    with assms(1) have "- 149 < quantum_search (- 149) x" by (simp add: quantum_exp_def)
    then have "2 powi (?q + 23) \<le> \<bar>x\<bar>"
      unfolding quantum_exp_def by (rule quantum_search_lower)
    moreover from gt have "(2::real) powi (e + 24) \<le> 2 powi (?q + 23)"
      by (intro powi_mono2) simp
    moreover from gt quantum_exp_range(2) [of x] assms(4) have "\<bar>x\<bar> < 2 powi (e + 24)"
      by auto
    ultimately show False by simp
  qed
qed

lemma quantum_exp_mono:
  assumes "\<bar>x\<bar> \<le> \<bar>y\<bar>"
  shows "quantum_exp x \<le> quantum_exp y"
proof (rule ccontr)
  assume "\<not> quantum_exp x \<le> quantum_exp y"
  then have lt: "quantum_exp y < quantum_exp x" by simp
  with quantum_exp_range(2) [of x] have "quantum_search (- 149) y < 104"
    by (simp add: quantum_exp_def)
  then have "\<bar>y\<bar> < 2 powi (quantum_exp y + 24)"
    unfolding quantum_exp_def by (rule quantum_search_upper)
  moreover from lt have "(2::real) powi (quantum_exp y + 24) \<le> 2 powi (quantum_exp x + 23)"
    by (intro powi_mono2) simp
  moreover from lt quantum_exp_range(1) [of y] have "- 149 < quantum_search (- 149) x"
    by (simp add: quantum_exp_def)
  then have "2 powi (quantum_exp x + 23) \<le> \<bar>x\<bar>"
    unfolding quantum_exp_def by (rule quantum_search_lower)
  ultimately show False using assms by simp
qed

lemma round32_real_nonneg: "0 \<le> x \<Longrightarrow> 0 \<le> round32_real x"
proof -
  assume "0 \<le> x"
  then have "0 \<le> x / 2 powi quantum_exp x" by simp
  then have "round_half_even 0 \<le> round_half_even (x / 2 powi quantum_exp x)"
    by (rule round_half_even_mono)
  then have "0 \<le> round_half_even (x / 2 powi quantum_exp x)"
    using round_half_even_of_int [of 0] by simp
  then show ?thesis by (simp add: round32_real_def Let_def)
qed

lemma round32_real_mono:
  assumes "0 \<le> x" and "x \<le> y"
  shows "round32_real x \<le> round32_real y"
proof -
  let ?ex = "quantum_exp x" and ?ey = "quantum_exp y"
  from assms have le: "?ex \<le> ?ey" by (intro quantum_exp_mono) simp
  show ?thesis
  proof (cases "?ex = ?ey")
    case True
    from assms have "x / 2 powi ?ey \<le> y / 2 powi ?ey" by (simp add: divide_right_mono)
    then have "round_half_even (x / 2 powi ?ey) \<le> round_half_even (y / 2 powi ?ey)"
      by (rule round_half_even_mono)
    then show ?thesis by (simp add: round32_real_def Let_def True)
  next
    case False
    with le have lt: "?ex < ?ey" by simp
    with quantum_exp_range(2) [of y] have "quantum_search (- 149) x < 104"
      by (simp add: quantum_exp_def)
    then have "\<bar>x\<bar> < 2 powi (?ex + 24)"
      unfolding quantum_exp_def by (rule quantum_search_upper)
    with assms(1) have "x / 2 powi ?ex \<le> 2 powi (?ex + 24) / 2 powi ?ex"
      by (simp add: divide_right_mono)
    also have "\<dots> = 2 ^ 24" by (simp add: power_int_add)
    finally have "round_half_even (x / 2 powi ?ex) \<le> round_half_even (of_int (2 ^ 24))"
      by (intro round_half_even_mono) simp
    then have "of_int (round_half_even (x / 2 powi ?ex)) \<le> (2 ^ 24 :: real)"
      unfolding round_half_even_of_int by (metis of_int_le_iff of_int_numeral of_int_power)
    then have "round32_real x \<le> 2 ^ 24 * 2 powi ?ex"
      by (simp add: round32_real_def Let_def mult_right_mono)
    also have "\<dots> = 2 powi (?ex + 24)" by (simp add: power_int_add)
    also from lt have "\<dots> \<le> 2 powi (?ey + 23)" by (intro powi_mono2) simp
    finally have up: "round32_real x \<le> 2 powi (?ey + 23)" .
    from lt quantum_exp_range(1) [of x] have "- 149 < quantum_search (- 149) y"
      by (simp add: quantum_exp_def)
    then have "2 powi (?ey + 23) \<le> \<bar>y\<bar>"
      unfolding quantum_exp_def by (rule quantum_search_lower)
    with assms have "2 powi (?ey + 23) / 2 powi ?ey \<le> y / 2 powi ?ey"
      by (simp add: divide_right_mono)
    moreover have "2 powi (?ey + 23) / 2 powi ?ey = (2 ^ 23 :: real)" by (simp add: power_int_add)
    ultimately have "round_half_even (of_int (2 ^ 23)) \<le> round_half_even (y / 2 powi ?ey)"
      by (intro round_half_even_mono) simp
    then have "(2 ^ 23 :: real) \<le> of_int (round_half_even (y / 2 powi ?ey))"
      unfolding round_half_even_of_int by (metis of_int_le_iff of_int_numeral of_int_power)
    then have "2 ^ 23 * 2 powi ?ey \<le> round32_real y"
      by (simp add: round32_real_def Let_def mult_right_mono)
    moreover have "2 ^ 23 * 2 powi ?ey = (2::real) powi (?ey + 23)" by (simp add: power_int_add)
    ultimately show ?thesis using up by simp
  qed
qed

text \<open>Values the projection meets, and what rounding does to them.\<close>

lemma round32_real_0: "round32_real 0 = 0"
  by (simp add: round32_real_def round_half_even_def)

lemma round32_real_1: "round32_real 1 = 1"
proof -
  have "quantum_exp 1 = - 23" by (rule quantum_exp_eq) simp_all
  then show ?thesis by (simp add: round32_real_def round_half_even_def)
qed

lemma round32_real_255: "round32_real 255 = 255"
proof -
  have "quantum_exp 255 = - 16" by (rule quantum_exp_eq) simp_all
  then show ?thesis by (simp add: round32_real_def round_half_even_def)
qed

lemma round32_real_least: "round32_real (2 powi (- 149)) = 2 powi (- 149)"
proof -
  have "quantum_exp (2 powi (- 149)) = - 149" by (rule quantum_exp_eq) simp_all
  then show ?thesis by (simp add: round32_real_def round_half_even_def)
qed

lemma round32_0: "round32 0 = Fin 0"
  by (simp add: round32_def round32_real_0)

lemma round32_1: "round32 1 = Fin 1"
  by (simp add: round32_def round32_real_1)

lemma round32_255: "round32 255 = Fin 255"
  by (simp add: round32_def round32_real_255)

lemma round32_2: "round32 2 = Fin 2"
proof -
  have "quantum_exp 2 = - 22" by (rule quantum_exp_eq) simp_all
  then show ?thesis by (simp add: round32_def round32_real_def round_half_even_def)
qed

lemma round32_3: "round32 3 = Fin 3"
proof -
  have "quantum_exp 3 = - 22" by (rule quantum_exp_eq) simp_all
  then show ?thesis by (simp add: round32_def round32_real_def round_half_even_def)
qed

lemma round32_4: "round32 4 = Fin 4"
proof -
  have "quantum_exp 4 = - 21" by (rule quantum_exp_eq) simp_all
  then show ?thesis by (simp add: round32_def round32_real_def round_half_even_def)
qed

lemma round32_Fin: "round32 x = Fin d \<Longrightarrow> round32_real x = d \<and> d < 2 ^ 128"
  by (auto simp: round32_def Let_def split: if_splits)

text \<open>
  Rounding keeps a value between two others in place: what lies between 0 and a value
  that rounds to a finite number rounds to a finite number between 0 and that one.
\<close>

lemma round32_between:
  assumes "0 \<le> x" and "x \<le> y" and "round32 y = Fin d"
  shows "round32 x = Fin (round32_real x) \<and> 0 \<le> round32_real x \<and> round32_real x \<le> d"
proof -
  from assms(3) have d: "round32_real y = d" "d < 2 ^ 128" using round32_Fin by blast+
  from assms(1) have lo: "0 \<le> round32_real x" by (rule round32_real_nonneg)
  from assms(1,2) have hi: "round32_real x \<le> d" unfolding d(1) [symmetric]
    by (rule round32_real_mono)
  from lo hi d(2) have "round32 x = Fin (round32_real x)" by (simp add: round32_def)
  with lo hi show ?thesis by simp
qed

text \<open>
  The numbers of the format are multiples of \<open>2^-149\<close>, so two different ones are at
  least that far apart and their difference does not round to zero.
\<close>

lemma is_float32_multiple:
  assumes "is_float32 x"
  shows "\<exists>k::int. x = of_int k * 2 powi (- 149)"
proof -
  define q where "q = quantum_exp x"
  define m where "m = round_half_even (x / 2 powi q)"
  define u :: real where "u = 2 powi (- 149)"
  from assms have "round32_real x = x"
    by (auto simp: is_float32_def round32_def Let_def split: if_splits)
  then have x: "x = of_int m * 2 powi q"
    by (simp add: round32_real_def Let_def q_def m_def)
  from quantum_exp_range(1) [of x] have n: "0 \<le> q + 149" by (simp add: q_def)
  have e: "q + 149 + (- 149) = q" by simp
  have "(2::real) powi (q + 149 + (- 149)) = 2 powi (q + 149) * 2 powi (- 149)"
    by (rule power_int_add) simp
  then have s: "(2::real) powi q = 2 powi (q + 149) * u" unfolding e u_def .
  from n have "(2::real) powi (q + 149) = 2 ^ nat (q + 149)" by (simp add: power_int_def)
  also have "\<dots> = of_int (2 ^ nat (q + 149))" by simp
  finally have "(2::real) powi q = of_int (2 ^ nat (q + 149)) * u" using s by simp
  with x have "x = of_int (m * 2 ^ nat (q + 149)) * u" by (simp add: mult.assoc)
  then show ?thesis unfolding u_def by blast
qed

lemma float32_difference_positive:
  assumes "is_float32 a" and "is_float32 b" and "b < a"
  shows "0 < round32_real (a - b)"
proof -
  from is_float32_multiple [OF assms(1)] obtain k :: int where a: "a = of_int k * 2 powi (- 149)"
    by blast
  from is_float32_multiple [OF assms(2)] obtain l :: int where b: "b = of_int l * 2 powi (- 149)"
    by blast
  have u: "(0::real) < 2 powi (- 149)" by simp
  from assms(3) have "of_int l * (2::real) powi (- 149) < of_int k * 2 powi (- 149)"
    unfolding a b .
  with u have "(of_int l :: real) < of_int k" by (simp only: mult_less_cancel_right_pos)
  then have "l + 1 \<le> k" by simp
  then have "(of_int l :: real) + 1 \<le> of_int k" by (metis of_int_1 of_int_add of_int_le_iff)
  then have "(of_int l + 1) * (2::real) powi (- 149) \<le> of_int k * 2 powi (- 149)"
    using u by (simp only: mult_le_cancel_right_pos)
  then have "2 powi (- 149) \<le> a - b" unfolding a b by (simp add: algebra_simps)
  then have "round32_real (2 powi (- 149)) \<le> round32_real (a - b)"
    by (intro round32_real_mono) simp_all
  with u show ?thesis unfolding round32_real_least by linarith
qed

section \<open>Properties of the image projection\<close>

lemma fold_fmin_Fin: "fold fmin (map Fin rs) (Fin r) = Fin (fold min rs r)"
  by (induction rs arbitrary: r) (simp_all add: min.commute)

lemma fold_fmax_Fin: "fold fmax (map Fin rs) (Fin r) = Fin (fold max rs r)"
  by (induction rs arbitrary: r) (simp_all add: max.commute)

lemma tensor_min_Fin: "rs \<noteq> [] \<Longrightarrow> tensor_min (map Fin rs) = Inr (Fin (Min (set rs)))"
proof (cases rs)
  case (Cons r rs')
  then show ?thesis using Min.set_eq_fold [of r rs'] by (simp add: fold_fmin_Fin)
qed simp

lemma tensor_max_Fin: "rs \<noteq> [] \<Longrightarrow> tensor_max (map Fin rs) = Inr (Fin (Max (set rs)))"
proof (cases rs)
  case (Cons r rs')
  then show ?thesis using Max.set_eq_fold [of r rs'] by (simp add: fold_fmax_Fin)
qed simp

lemma round32_overflow:
  assumes "2 ^ 128 \<le> x"
  shows "round32 x = PInf"
proof -
  from assms have x: "2 powi 127 \<le> \<bar>x\<bar>" by simp
  have q: "quantum_exp x = 104" by (rule quantum_exp_eq) (use x in simp_all)
  from assms have "(2 ^ 24 :: real) \<le> x / 2 powi 104" by (simp add: le_divide_eq)
  then have "round_half_even (of_int (2 ^ 24)) \<le> round_half_even (x / 2 powi 104)"
    by (intro round_half_even_mono) simp
  then have "(2 ^ 24 :: real) \<le> of_int (round_half_even (x / 2 powi 104))"
    unfolding round_half_even_of_int by (metis of_int_le_iff of_int_numeral of_int_power)
  then have "2 ^ 24 * 2 powi 104 \<le> round32_real x"
    by (simp add: round32_real_def Let_def q mult_right_mono)
  then have "2 ^ 128 \<le> round32_real x" by simp
  then show ?thesis by (simp add: round32_def)
qed

text \<open>
  The projection of a vector of numbers of the format whose range \<open>max - min\<close> rounds to
  the finite number \<open>d\<close>: every step stays finite, and the pixel at \<open>(a, b)\<close> is the
  rounded product of the rounded normalised entries, scaled and rounded.
\<close>

lemma projection_float32:
  assumes "rs \<noteq> []" and "\<forall>r \<in> set rs. is_float32 r"
    and "Max (set rs) \<noteq> Min (set rs)"
    and "round32 (Max (set rs) - Min (set rs)) = Fin d"
  shows "\<exists>c. get_embedding_as_image_tensor (map Fin rs) =
               Inr [map (\<lambda>a. map (\<lambda>b. Fin (round32_real (c a b * 255))) rs) rs] \<and>
             (\<forall>a \<in> set rs. \<forall>b \<in> set rs.
                c a b = c b a \<and> 0 \<le> round32_real (c a b * 255) \<and>
                round32_real (c a b * 255) \<le> 255)"
proof -
  define mn where "mn = Min (set rs)"
  define mx where "mx = Max (set rs)"
  from assms(1) have mn_in: "mn \<in> set rs" and mx_in: "mx \<in> set rs"
    by (simp_all add: mn_def mx_def)
  have lo: "mn \<le> r" and hi: "r \<le> mx" if "r \<in> set rs" for r
    using that by (simp_all add: mn_def mx_def)
  from lo [OF mx_in] assms(3) have lt: "mn < mx" by (simp add: mn_def mx_def)
  from assms(4) have rd: "round32 (mx - mn) = Fin d" by (simp add: mn_def mx_def)
  from assms(2) mn_in mx_in have "is_float32 mx" "is_float32 mn" by blast+
  then have "0 < round32_real (mx - mn)" using lt by (rule float32_difference_positive)
  with round32_Fin [OF rd] have dpos: "0 < d" by simp
  define a where "a r = round32_real (r - mn)" for r
  define n where "n r = round32_real (a r / d)" for r
  define c where "c r r' = round32_real (n r * n r')" for r r'
  define v where "v r r' = round32_real (c r r' * 255)" for r r'
  have sub: "fsub (Fin r) (Fin mn) = Fin (a r) \<and> 0 \<le> a r \<and> a r \<le> d" if "r \<in> set rs" for r
  proof -
    from lo [OF that] hi [OF that] have "0 \<le> r - mn" "r - mn \<le> mx - mn" by simp_all
    from round32_between [OF this rd] show ?thesis by (simp add: a_def)
  qed
  have nrm: "fdiv (fsub (Fin r) (Fin mn)) (fsub (Fin mx) (Fin mn)) = Fin (n r) \<and>
             0 \<le> n r \<and> n r \<le> 1" if "r \<in> set rs" for r
  proof -
    from sub [OF that] dpos have "0 \<le> a r / d" "a r / d \<le> 1" by simp_all
    from round32_between [OF this round32_1]
    have "round32 (a r / d) = Fin (n r) \<and> 0 \<le> n r \<and> n r \<le> 1" by (simp add: n_def)
    with sub [OF that] rd dpos show ?thesis by simp
  qed
  have prod: "fmul (Fin (n r)) (Fin (n r')) = Fin (c r r') \<and> 0 \<le> c r r' \<and> c r r' \<le> 1"
    if "r \<in> set rs" "r' \<in> set rs" for r r'
  proof -
    from nrm [OF that(1)] nrm [OF that(2)]
    have "0 \<le> n r * n r'" "n r * n r' \<le> 1" by (simp_all add: mult_le_one)
    from round32_between [OF this round32_1] show ?thesis by (simp add: c_def)
  qed
  have pix: "fmul (Fin (c r r')) (Fin 255) = Fin (v r r') \<and> 0 \<le> v r r' \<and> v r r' \<le> 255"
    if "r \<in> set rs" "r' \<in> set rs" for r r'
  proof -
    from prod [OF that] have "0 \<le> c r r' * 255" "c r r' * 255 \<le> 255" by simp_all
    from round32_between [OF this round32_255] show ?thesis by (simp add: v_def)
  qed
  have normalized: "map (\<lambda>x. fdiv (fsub x (Fin mn)) (fsub (Fin mx) (Fin mn))) (map Fin rs) =
                    map (\<lambda>r. Fin (n r)) rs"
    using nrm by (simp add: comp_def)
  have cross: "map (\<lambda>x. map (\<lambda>y. fmul x y) (map (\<lambda>r. Fin (n r)) rs)) (map (\<lambda>r. Fin (n r)) rs) =
               map (\<lambda>r. map (\<lambda>r'. Fin (c r r')) rs) rs"
    using prod by (simp add: comp_def)
  have scaled: "map (map (\<lambda>z. fmul z (Fin 255))) (map (\<lambda>r. map (\<lambda>r'. Fin (c r r')) rs) rs) =
                map (\<lambda>r. map (\<lambda>r'. Fin (v r r')) rs) rs"
    using pix by (simp add: comp_def)
  from assms(1) have tm: "tensor_min (map Fin rs) = Inr (Fin mn)"
    and tx: "tensor_max (map Fin rs) = Inr (Fin mx)"
    by (simp_all add: tensor_min_Fin tensor_max_Fin mn_def mx_def)
  have "get_embedding_as_image_tensor (map Fin rs) =
          Inr [map (map (\<lambda>z. fmul z (Fin 255)))
                 (map (\<lambda>x. map (\<lambda>y. fmul x y)
                    (map (\<lambda>x. fdiv (fsub x (Fin mn)) (fsub (Fin mx) (Fin mn))) (map Fin rs)))
                    (map (\<lambda>x. fdiv (fsub x (Fin mn)) (fsub (Fin mx) (Fin mn))) (map Fin rs)))]"
    by (simp only: get_embedding_as_image_tensor_def tm tx sum.case Let_def)
  also have "\<dots> = Inr [map (\<lambda>r. map (\<lambda>r'. Fin (v r r')) rs) rs]"
    by (simp only: normalized cross scaled)
  finally have "get_embedding_as_image_tensor (map Fin rs) =
          Inr [map (\<lambda>r. map (\<lambda>r'. Fin (v r r')) rs) rs]" .
  moreover have "\<forall>r \<in> set rs. \<forall>r' \<in> set rs.
                   c r r' = c r' r \<and> 0 \<le> round32_real (c r r' * 255) \<and>
                   round32_real (c r r' * 255) \<le> 255"
    using pix by (auto simp: c_def v_def mult.commute)
  ultimately show ?thesis unfolding v_def by blast
qed

text \<open>
  Claim C3 fails on finite vectors whose range overflows the 32-bit format: for
  \<open>[- 2^127, 2^127]\<close> the difference \<open>max - min\<close> is \<open>2^128\<close>, which is an infinity, and
  the entries computed from it are NaN.
\<close>

theorem image_projection_overflow_gives_nan:
  "get_embedding_as_image_tensor [Fin (- (2 ^ 127)), Fin (2 ^ 127)] =
     Inr [[[Fin 0, NaN], [NaN, NaN]]]"
proof -
  define M :: real where "M = 2 ^ 127"
  have pos: "0 < M" by (simp add: M_def)
  have "2 ^ 128 \<le> 2 * M" by (simp add: M_def)
  then have ov: "round32 (2 * M) = PInf" by (rule round32_overflow)
  from pos have mm: "min (- M) M = - M" "max (- M) M = M" "min M (- M) = - M" "max M (- M) = M"
    by simp_all
  have "get_embedding_as_image_tensor [Fin (- M), Fin M] = Inr [[[Fin 0, NaN], [NaN, NaN]]]"
    by (simp add: get_embedding_as_image_tensor_def Let_def mm ov round32_0)
  then show ?thesis unfolding M_def .
qed

text \<open>
  Claim C3, amended. For every input vector of length \<open>V\<close> of finite numbers of the 32-bit
  format whose maximum and minimum differ and whose range \<open>max - min\<close> is finite in that
  format, the projection (a function of its input, hence deterministic) returns one
  channel that is a \<open>V \<times> V\<close> matrix, symmetric, with every entry a finite number between
  0 and 255.
\<close>

theorem image_projection_symmetric_in_range:
  assumes "rs \<noteq> []" and "\<forall>r \<in> set rs. is_float32 r"
    and "Max (set rs) \<noteq> Min (set rs)"
    and "round32 (Max (set rs) - Min (set rs)) = Fin d"
  shows "\<exists>img. get_embedding_as_image_tensor (map Fin rs) = Inr [img] \<and>
           length img = length rs \<and>
           (\<forall>i < length rs. length (img ! i) = length rs) \<and>
           (\<forall>i < length rs. \<forall>j < length rs.
              img ! i ! j = img ! j ! i \<and>
              (\<exists>v. img ! i ! j = Fin v \<and> 0 \<le> v \<and> v \<le> 255))"
proof -
  from projection_float32 [OF assms] obtain c where
    r: "get_embedding_as_image_tensor (map Fin rs) =
          Inr [map (\<lambda>a. map (\<lambda>b. Fin (round32_real (c a b * 255))) rs) rs]"
    and p: "\<forall>a \<in> set rs. \<forall>b \<in> set rs.
              c a b = c b a \<and> 0 \<le> round32_real (c a b * 255) \<and>
              round32_real (c a b * 255) \<le> 255"
    by blast
  define img where "img = map (\<lambda>a. map (\<lambda>b. Fin (round32_real (c a b * 255))) rs) rs"
  have px: "img ! i ! j = Fin (round32_real (c (rs ! i) (rs ! j) * 255))"
    if "i < length rs" "j < length rs" for i j
    using that by (simp add: img_def)
  have "length img = length rs" by (simp add: img_def)
  moreover have "\<forall>i < length rs. length (img ! i) = length rs" by (simp add: img_def)
  moreover have "\<forall>i < length rs. \<forall>j < length rs.
              img ! i ! j = img ! j ! i \<and>
              (\<exists>v. img ! i ! j = Fin v \<and> 0 \<le> v \<and> v \<le> 255)"
  proof (intro allI impI)
    fix i j assume ij: "i < length rs" "j < length rs"
    then have "rs ! i \<in> set rs" "rs ! j \<in> set rs" by simp_all
    with p have "c (rs ! i) (rs ! j) = c (rs ! j) (rs ! i)"
      and "0 \<le> round32_real (c (rs ! i) (rs ! j) * 255)"
      and "round32_real (c (rs ! i) (rs ! j) * 255) \<le> 255"
      by blast+
    with px [OF ij] px [OF ij(2) ij(1)]
    show "img ! i ! j = img ! j ! i \<and> (\<exists>v. img ! i ! j = Fin v \<and> 0 \<le> v \<and> v \<le> 255)"
      by simp
  qed
  ultimately show ?thesis using r unfolding img_def [symmetric] by blast
qed

lemma is_float32_small: "is_float32 1" "is_float32 2" "is_float32 3"
  by (simp_all add: is_float32_def round32_1 round32_2 round32_3)

theorem image_projection_symmetric_in_range_witness:
  "\<exists>img. get_embedding_as_image_tensor [Fin 1, Fin 3, Fin 2] = Inr [img] \<and>
     length img = 3 \<and> img ! 1 ! 2 = img ! 2 ! 1 \<and>
     (\<exists>v. img ! 1 ! 2 = Fin v \<and> 0 \<le> v \<and> v \<le> 255)"
proof -
  have h1: "[1, 3, 2 :: real] \<noteq> []" by simp
  have h2: "\<forall>r \<in> set [1, 3, 2 :: real]. is_float32 r" by (simp add: is_float32_small)
  have h3: "Max (set [1, 3, 2 :: real]) \<noteq> Min (set [1, 3, 2 :: real])" by simp
  have h4: "round32 (Max (set [1, 3, 2 :: real]) - Min (set [1, 3, 2 :: real])) = Fin 2"
    using is_float32_small(2) by (simp add: is_float32_def)
  from image_projection_symmetric_in_range [OF h1 h2 h3 h4]
  obtain img where i: "get_embedding_as_image_tensor (map Fin [1, 3, 2]) = Inr [img]"
    "length img = length [1, 3, 2 :: real]"
    "\<forall>i < length [1, 3, 2 :: real]. \<forall>j < length [1, 3, 2 :: real].
              img ! i ! j = img ! j ! i \<and>
              (\<exists>v. img ! i ! j = Fin v \<and> 0 \<le> v \<and> v \<le> 255)"
    by blast
  from i(3) have a: "img ! 1 ! 2 = img ! 2 ! 1 \<and> (\<exists>v. img ! 1 ! 2 = Fin v \<and> 0 \<le> v \<and> v \<le> 255)"
    by simp
  from i(1) have b: "get_embedding_as_image_tensor [Fin 1, Fin 3, Fin 2] = Inr [img]" by simp
  from i(2) have c: "length img = 3" by simp
  from a b c show ?thesis by blast
qed

lemma constant_min: "0 < V \<Longrightarrow> tensor_min (replicate V (Fin c)) = Inr (Fin c)"
  using tensor_min_Fin [of "replicate V c"] by simp

lemma constant_max: "0 < V \<Longrightarrow> tensor_max (replicate V (Fin c)) = Inr (Fin c)"
  using tensor_max_Fin [of "replicate V c"] by simp

text \<open>
  Claim C1 fails: the projection has no branch for a constant vector, and the
  normalisation divides zero by zero.
\<close>

theorem constant_vector_gives_nan:
  "get_embedding_as_image_tensor [Fin 1, Fin 1] = Inr [[[NaN, NaN], [NaN, NaN]]]"
  by (simp add: get_embedding_as_image_tensor_def Let_def round32_0)

text \<open>
  Claim C1, amended. For every constant input vector of finite numbers of length
  \<open>V \<ge> 1\<close>, the projection applies no special handling: it returns the single
  \<open>V \<times> V\<close> channel all of whose entries are NaN.
\<close>

theorem constant_vector_all_nan:
  assumes "0 < V"
  shows "get_embedding_as_image_tensor (replicate V (Fin c)) =
           Inr [replicate V (replicate V NaN)]"
  using assms
  by (simp add: get_embedding_as_image_tensor_def constant_min constant_max Let_def round32_0)

theorem constant_vector_all_nan_witness:
  "get_embedding_as_image_tensor [Fin 2, Fin 2, Fin 2] =
     Inr [[[NaN, NaN, NaN], [NaN, NaN, NaN], [NaN, NaN, NaN]]]"
  using constant_vector_all_nan [of 3 2] by (simp add: numeral_3_eq_3)

section \<open>Properties of the projection-backed image dataset\<close>

lemma precompute_loop_cache:
  assumes "precompute_loop rt ds rsz js c = Inr c'"
  shows "(\<forall>i \<in> set js. \<exists>emb lab img.
            hcb_getitem ds (int i) = Inr (emb, lab) \<and>
            get_embedding_as_image_tensor emb = Inr img \<and>
            Mapping.lookup c' (int i) = Some (if rsz then rt img else img)) \<and>
         (\<forall>k. k \<notin> int ` set js \<longrightarrow> Mapping.lookup c' k = Mapping.lookup c k)"
  using assms
proof (induction js arbitrary: c)
  case Nil
  then show ?case by simp
next
  case (Cons i rest)
  from Cons.prems obtain emb lab where g: "hcb_getitem ds (int i) = Inr (emb, lab)"
    by (auto split: sum.splits)
  from Cons.prems g obtain img where p: "get_embedding_as_image_tensor emb = Inr img"
    by (auto split: sum.splits)
  define v where "v = (if rsz then rt img else img)"
  from Cons.prems g p have r: "precompute_loop rt ds rsz rest (Mapping.update (int i) v c) = Inr c'"
    by (simp add: v_def Let_def)
  note ih = Cons.IH [OF r]
  have hd: "Mapping.lookup c' (int i) = Some v"
  proof (cases "i \<in> set rest")
    case True
    with ih g p show ?thesis by (auto simp: v_def)
  next
    case False
    then have "int i \<notin> int ` set rest" by auto
    with ih have "Mapping.lookup c' (int i) = Mapping.lookup (Mapping.update (int i) v c) (int i)" by blast
    then show ?thesis by simp
  qed
  have "\<forall>j \<in> set (i # rest). \<exists>emb lab img.
            hcb_getitem ds (int j) = Inr (emb, lab) \<and>
            get_embedding_as_image_tensor emb = Inr img \<and>
            Mapping.lookup c' (int j) = Some (if rsz then rt img else img)"
    using ih g p hd by (auto simp: v_def)
  moreover have "\<forall>k. k \<notin> int ` set (i # rest) \<longrightarrow> Mapping.lookup c' k = Mapping.lookup c k"
    using ih by auto
  ultimately show ?case by blast
qed

text \<open>
  Claim C8. For every eager dataset for which the precomputing constructor succeeds, for
  either value of the resize flag and every index \<open>0 \<le> idx < len\<close>, the item read from
  the cache equals the item projected on access by the dataset built without
  precomputation, and both are an (image, label) pair.
\<close>

theorem precompute_agrees_with_on_access:
  assumes "new_ImageByCrossMultiplicationDataset rt ds rsz True = Inr dp"
    and "0 \<le> idx" and "idx < int (hcb_len ds)"
  shows "\<exists>dl img label.
           new_ImageByCrossMultiplicationDataset rt ds rsz False = Inr dl \<and>
           image_getitem rt dp idx = Inr (img, label) \<and>
           image_getitem rt dl idx = Inr (img, label)"
proof -
  define hw where "hw = (if rsz then DEFAULT_IMAGE_SHAPE else (embedding_size ds, embedding_size ds))"
  define h where "h = fst hw"
  define w where "w = snd hw"
  define dl where "dl = \<lparr>human_chatbot_ds = ds, resize = rsz, precompute = False,
                          cache = Mapping.empty, image_height = h, image_width = w\<rparr>"
  have l: "new_ImageByCrossMultiplicationDataset rt ds rsz False = Inr dl"
    by (simp add: new_ImageByCrossMultiplicationDataset_def dl_def h_def w_def hw_def
                  DEFAULT_IMAGE_SHAPE_def)
  from assms(1) obtain c where
    c: "precompute_loop rt ds rsz [0..<hcb_len ds] Mapping.empty = Inr c"
    and dp: "dp = \<lparr>human_chatbot_ds = ds, resize = rsz, precompute = True,
                    cache = c, image_height = h, image_width = w\<rparr>"
    by (auto simp: new_ImageByCrossMultiplicationDataset_def h_def w_def hw_def
                   DEFAULT_IMAGE_SHAPE_def split: sum.splits if_splits)
  from assms(2,3) have "nat idx \<in> set [0..<hcb_len ds]" by auto
  with precompute_loop_cache [OF c] obtain emb lab img where
    g: "hcb_getitem ds (int (nat idx)) = Inr (emb, lab)"
    and p: "get_embedding_as_image_tensor emb = Inr img"
    and s: "Mapping.lookup c (int (nat idx)) = Some (if rsz then rt img else img)"
    by blast
  from assms(2) have i: "int (nat idx) = idx" by simp
  from s have ne: "\<not> Mapping.is_empty c"
    by (auto simp: Mapping.is_empty_def Mapping.keys_dom_lookup)
  have "image_getitem rt dp idx = Inr (if rsz then rt img else img, lab)"
    using g p s ne unfolding i by (simp add: image_getitem_def dp)
  moreover have "image_getitem rt dl idx = Inr (if rsz then rt img else img, lab)"
    using g p unfolding i by (simp add: image_getitem_def dl_def)
  ultimately show ?thesis using l by blast
qed

theorem precompute_agrees_with_on_access_witness:
  "\<exists>dl img label.
     new_ImageByCrossMultiplicationDataset (map (map (take 1)))
       \<lparr>hcb_data = \<lparr>type_col = None, label_col = Some [0, 1],
                      feature_cols = [(''f0'', [Fin 1, Fin 4]), (''f1'', [Fin 2, Fin 3])]\<rparr>,
        n_non_feature_columns = 1, number_of_classes = 2\<rparr> True False = Inr dl \<and>
     image_getitem (map (map (take 1)))
       \<lparr>human_chatbot_ds =
          \<lparr>hcb_data = \<lparr>type_col = None, label_col = Some [0, 1],
                      feature_cols = [(''f0'', [Fin 1, Fin 4]), (''f1'', [Fin 2, Fin 3])]\<rparr>,
           n_non_feature_columns = 1, number_of_classes = 2\<rparr>,
        resize = True, precompute = True,
        cache = Mapping.update 1 [[[Fin 255], [Fin 0]]]
                  (Mapping.update 0 [[[Fin 0], [Fin 0]]] Mapping.empty),
        image_height = 100, image_width = 100\<rparr> 1 = Inr (img, label) \<and>
     image_getitem (map (map (take 1))) dl 1 = Inr (img, label)"
proof -
  let ?ds = "\<lparr>hcb_data = \<lparr>type_col = None, label_col = Some [0, 1],
                      feature_cols = [(''f0'', [Fin 1, Fin 4]), (''f1'', [Fin 2, Fin 3])]\<rparr>,
        n_non_feature_columns = 1, number_of_classes = 2\<rparr>"
  let ?dp = "\<lparr>human_chatbot_ds = ?ds, resize = True, precompute = True,
        cache = Mapping.update 1 [[[Fin 255], [Fin 0]]]
                  (Mapping.update 0 [[[Fin 0], [Fin 0]]] Mapping.empty),
        image_height = 100, image_width = 100\<rparr>"
  have u: "[0..<2] = [0, Suc 0]" by (simp add: upt_rec)
  have c: "new_ImageByCrossMultiplicationDataset (map (map (take 1))) ?ds True True = Inr ?dp"
    by (simp add: new_ImageByCrossMultiplicationDataset_def DEFAULT_IMAGE_SHAPE_def hcb_len_def
                  frame_height_def u hcb_getitem_def row_index_def frame_row_def
                  get_embedding_as_image_tensor_def Let_def to_float32_def
                  round32_0 round32_1 round32_2 round32_3 round32_4 round32_255)
  have i: "(1::int) < int (hcb_len ?ds)" by (simp add: hcb_len_def frame_height_def)
  from precompute_agrees_with_on_access [OF c _ i] show ?thesis
    by (simp add: hcb_len_def frame_height_def)
qed

section \<open>Properties of the tabular sample store\<close>

lemma present_labels_dense:
  assumes "set labels = int ` {0..<n}"
  shows "sort (unique labels) = map int [0..<n]"
proof -
  have "sorted (map int [0..<n])" by (simp add: sorted_map)
  moreover have "distinct (map int [0..<n])" by (simp add: distinct_map inj_on_def)
  moreover have "set (map int [0..<n]) = set labels" using assms by simp
  ultimately show ?thesis
    unfolding article_types_sorted_list
    by (metis sorted_list_of_set.idem_if_sorted_distinct)
qed

lemma dense_labels_need_no_mapping:
  "\<not> list_ex (\<lambda>k. enumerate_dict (map int [0..<n]) k \<noteq> Some k) (map int [0..<n])"
proof -
  have d: "distinct (map int [0..<n])" by (simp add: distinct_map inj_on_def)
  have "enumerate_dict (map int [0..<n]) (int i) = Some (int i)" if "i < n" for i
    using enumerate_dict_nth [OF d, of i] that by simp
  then show ?thesis by (auto simp: list_ex_iff)
qed

lemma replaced_labels_dense:
  fixes labels :: "int list"
  defines "L \<equiv> sort (unique labels)"
  shows "set (map (replace_label (enumerate_dict L)) labels) = int ` {0..<length L}"
proof -
  have dL: "distinct L" and setL: "set L = set labels"
    by (simp_all add: L_def unique_def)
  have "replace_label (enumerate_dict L) ` set L = ran (enumerate_dict L)"
  proof (intro set_eqI iffI)
    fix c assume "c \<in> replace_label (enumerate_dict L) ` set L"
    then obtain k where k: "k \<in> set L" "c = replace_label (enumerate_dict L) k" by auto
    with enumerate_dict_dom [OF dL] obtain v where "enumerate_dict L k = Some v" by auto
    with k show "c \<in> ran (enumerate_dict L)" by (auto simp: replace_label_def ran_def)
  next
    fix c assume "c \<in> ran (enumerate_dict L)"
    then obtain k where k: "enumerate_dict L k = Some c" by (auto simp: ran_def)
    with enumerate_dict_dom [OF dL] have "k \<in> set L" by auto
    moreover from k have "replace_label (enumerate_dict L) k = c" by (simp add: replace_label_def)
    ultimately show "c \<in> replace_label (enumerate_dict L) ` set L" by auto
  qed
  with enumerate_dict_ran [OF dL] setL show ?thesis by simp
qed

lemma unchanged_labels_map:
  assumes "\<not> list_ex (\<lambda>k. enumerate_dict (sort (unique labels)) k \<noteq> Some k) (sort (unique labels))"
  shows "map (replace_label (enumerate_dict (sort (unique labels)))) labels = labels"
proof -
  have "replace_label (enumerate_dict (sort (unique labels))) l = l" if "l \<in> set labels" for l
    using assms that by (auto simp: list_ex_iff replace_label_def unique_def)
  then show ?thesis by (simp add: map_idI)
qed

text \<open>The labels of a constructed store are the dense range, and no type column is left.\<close>

lemma store_labels_dense:
  assumes "new_HumanChatBotDataset d0 = Inr ds"
  shows "\<exists>ls. label_col (hcb_data ds) = Some ls \<and>
              set ls = int ` {0..<number_of_classes ds} \<and>
              type_col (hcb_data ds) = None \<and> n_non_feature_columns ds = 1"
proof -
  from assms obtain labels where l: "label_col d0 = Some labels"
    by (auto simp: new_HumanChatBotDataset_def split: option.splits)
  define L where "L = sort (unique labels)"
  show ?thesis
  proof (cases "list_ex (\<lambda>k. enumerate_dict L k \<noteq> Some k) L")
    case True
    with assms l have "ds = \<lparr>hcb_data = d0\<lparr>label_col := Some (map (replace_label (enumerate_dict L)) labels),
                                       type_col := None\<rparr>,
                        n_non_feature_columns = 1, number_of_classes = length L\<rparr>"
      by (simp add: new_HumanChatBotDataset_def Let_def L_def)
    then show ?thesis using replaced_labels_dense [of labels] by (simp add: L_def)
  next
    case False
    with assms l have ds: "ds = \<lparr>hcb_data = d0\<lparr>type_col := None\<rparr>,
                        n_non_feature_columns = 1, number_of_classes = length L\<rparr>"
      by (simp add: new_HumanChatBotDataset_def Let_def L_def)
    from False have e: "map (replace_label (enumerate_dict L)) labels = labels"
      unfolding L_def by (rule unchanged_labels_map)
    have "set (map (replace_label (enumerate_dict L)) labels) = int ` {0..<length L}"
      unfolding L_def by (rule replaced_labels_dense)
    then have "set labels = int ` {0..<length L}" unfolding e .
    with ds l show ?thesis by simp
  qed
qed

lemma reconstruct_dense:
  assumes "label_col d = Some ls" and "set ls = int ` {0..<n}"
  shows "new_HumanChatBotDataset d =
           Inr \<lparr>hcb_data = d\<lparr>type_col := None\<rparr>, n_non_feature_columns = 1, number_of_classes = n\<rparr>"
  using assms dense_labels_need_no_mapping [of n]
  by (simp add: new_HumanChatBotDataset_def present_labels_dense [OF assms(2)] Let_def)

text \<open>
  Claim C9. A store saved to a file and loaded again is a store with the same number of
  rows, the same number of classes, the same label in every row and feature columns that
  are those of the original within the tolerance. The CSV writer and reader are Polars';
  what is assumed of them is that the frame read back from the written file is the
  written frame within the tolerance.
\<close>

theorem save_load_roundtrip:
  assumes "new_HumanChatBotDataset d0 = Inr ds"
    and "read_csv (write_csv (hcb_data ds)) = Inr d'"
    and "frame_close eps (hcb_data ds) d'"
  shows "\<exists>ds'. load read_csv path (save write_csv ds path fs) = Inr ds' \<and>
           hcb_len ds' = hcb_len ds \<and>
           number_of_classes ds' = number_of_classes ds \<and>
           n_non_feature_columns ds' = n_non_feature_columns ds \<and>
           label_col (hcb_data ds') = label_col (hcb_data ds) \<and>
           frame_close eps (hcb_data ds) (hcb_data ds')"
proof -
  from store_labels_dense [OF assms(1)] obtain ls where
    ls: "label_col (hcb_data ds) = Some ls" "set ls = int ` {0..<number_of_classes ds}"
    and ty: "type_col (hcb_data ds) = None" and nn: "n_non_feature_columns ds = 1"
    by blast
  from assms(3) ls ty have l': "label_col d' = Some ls" and t': "type_col d' = None"
    by (simp_all add: frame_close_def)
  from t' have same: "d'\<lparr>type_col := None\<rparr> = d'" by simp
  define ds' where "ds' = \<lparr>hcb_data = d', n_non_feature_columns = 1,
                            number_of_classes = number_of_classes ds\<rparr>"
  have "new_HumanChatBotDataset d' = Inr ds'"
    using reconstruct_dense [OF l' ls(2)] same by (simp add: ds'_def)
  with assms(2) have "load read_csv path (save write_csv ds path fs) = Inr ds'"
    by (simp add: load_def save_def)
  moreover have "hcb_len ds' = hcb_len ds"
    using ls ty l' t' by (simp add: hcb_len_def frame_height_def ds'_def)
  ultimately show ?thesis using assms(3) ls l' nn by (auto simp: ds'_def)
qed

theorem save_load_roundtrip_witness:
  "\<exists>ds'. load (\<lambda>d. Inr (d\<lparr>feature_cols := [(''f0'', [Fin 1.001, Fin 2])]\<rparr>)) ''a.csv''
            (save (\<lambda>d. d)
               \<lparr>hcb_data = \<lparr>type_col = None, label_col = Some [1, 0],
                             feature_cols = [(''f0'', [Fin 1, Fin 2])]\<rparr>,
                n_non_feature_columns = 1, number_of_classes = 2\<rparr> ''a.csv'' Map.empty) = Inr ds' \<and>
          label_col (hcb_data ds') = Some [1, 0] \<and> number_of_classes ds' = 2"
proof -
  let ?d0 = "\<lparr>type_col = Some [''human'', ''bot''], label_col = Some [7, 3],
              feature_cols = [(''f0'', [Fin 1, Fin 2])]\<rparr>"
  let ?ds = "\<lparr>hcb_data = \<lparr>type_col = None, label_col = Some [1, 0],
                             feature_cols = [(''f0'', [Fin 1, Fin 2])]\<rparr>,
                n_non_feature_columns = 1, number_of_classes = 2\<rparr>"
  let ?d' = "\<lparr>type_col = None, label_col = Some [1, 0],
              feature_cols = [(''f0'', [Fin 1.001, Fin 2])]\<rparr>"
  have a: "new_HumanChatBotDataset ?d0 = Inr ?ds"
    by (simp add: new_HumanChatBotDataset_def unique_def enumerate_dict_def replace_label_def)
  have b: "(\<lambda>d. Inr (d\<lparr>feature_cols := [(''f0'', [Fin 1.001, Fin 2])]\<rparr>)) ((\<lambda>d. d) (hcb_data ?ds)) = Inr ?d'"
    by simp
  have c: "frame_close 0.01 (hcb_data ?ds) ?d'"
    by (simp add: frame_close_def fval_close_def)
  from save_load_roundtrip
         [where read_csv = "\<lambda>d. Inr (d\<lparr>feature_cols := [(''f0'', [Fin 1.001, Fin 2])]\<rparr>)"
            and write_csv = "\<lambda>d. d" and path = "''a.csv''" and fs = Map.empty, OF a b c]
  show ?thesis by auto
qed

section \<open>Properties of the evaluation pass\<close>

lemma concat_chunks: "0 < n \<Longrightarrow> concat (chunks n xs) = xs"
proof (induction n xs rule: chunks.induct)
  case (1 n xs)
  show ?case
  proof (cases "xs = []")
    case True
    then show ?thesis by (simp add: chunks.simps)
  next
    case False
    with 1 have "concat (chunks n (drop n xs)) = drop n xs" by simp
    with False 1(2) show ?thesis by (subst chunks.simps) simp
  qed
qed

lemma batches_sizes:
  assumes "0 < batch_size dl"
  shows "sum_list (map (\<lambda>b. length (fst b)) (batches dl order)) = length order"
    and "\<forall>b \<in> set (batches dl order). length (fst b) = length (snd b)"
proof -
  have "sum_list (map (\<lambda>b. length (fst b)) (batches dl order)) =
        sum_list (map length (chunks (batch_size dl) order))"
    by (simp add: batches_def comp_def)
  also have "\<dots> = length (concat (chunks (batch_size dl) order))"
    by (simp add: length_concat)
  finally show "sum_list (map (\<lambda>b. length (fst b)) (batches dl order)) = length order"
    using assms by (simp add: concat_chunks)
  show "\<forall>b \<in> set (batches dl order). length (fst b) = length (snd b)"
    by (auto simp: batches_def)
qed

lemma row_total_bump:
  assumes "finite (dom r)"
  shows "row_total (r(j \<mapsto> (case r j of None \<Rightarrow> 0 | Some c \<Rightarrow> c) + 1)) = row_total r + 1"
proof -
  let ?v = "(case r j of None \<Rightarrow> 0 | Some c \<Rightarrow> c) + 1"
  have "row_total (r(j \<mapsto> ?v)) = (\<Sum>k \<in> insert j (dom r). the ((r(j \<mapsto> ?v)) k))"
    by (simp add: row_total_def)
  also have "\<dots> = ?v + (\<Sum>k \<in> dom r - {j}. the ((r(j \<mapsto> ?v)) k))"
    using assms by (simp add: sum.insert_remove)
  also have "(\<Sum>k \<in> dom r - {j}. the ((r(j \<mapsto> ?v)) k)) = (\<Sum>k \<in> dom r - {j}. the (r k))"
    by (rule sum.cong) auto
  finally have a: "row_total (r(j \<mapsto> ?v)) = ?v + (\<Sum>k \<in> dom r - {j}. the (r k))" .
  show ?thesis
  proof (cases "r j")
    case None
    then have "dom r - {j} = dom r" by auto
    with a None show ?thesis by (simp add: row_total_def)
  next
    case (Some c)
    then have "j \<in> dom r" by auto
    with assms have "row_total r = the (r j) + (\<Sum>k \<in> dom r - {j}. the (r k))"
      unfolding row_total_def by (rule sum.remove)
    with a Some show ?thesis by simp
  qed
qed

lemma make_up_total_bump:
  assumes "finite (dom mk)" and "\<forall>i r. mk i = Some r \<longrightarrow> finite (dom r)"
  shows "make_up_total (bump mk i j) = make_up_total mk + 1"
    and "finite (dom (bump mk i j))"
    and "\<forall>i' r. bump mk i j i' = Some r \<longrightarrow> finite (dom r)"
proof -
  define row where "row = (case mk i of None \<Rightarrow> Map.empty | Some r \<Rightarrow> r)"
  define row' where "row' = row(j \<mapsto> (case row j of None \<Rightarrow> 0 | Some c \<Rightarrow> c) + 1)"
  have b: "bump mk i j = mk(i \<mapsto> row')" by (simp add: bump_def row_def row'_def Let_def)
  have frow: "finite (dom row)" using assms(2) by (auto simp: row_def split: option.splits)
  then have rt: "row_total row' = row_total row + 1" unfolding row'_def by (rule row_total_bump)
  from frow have frow': "finite (dom row')" by (simp add: row'_def)
  show "finite (dom (bump mk i j))" using assms(1) by (simp add: b)
  show "\<forall>i' r. bump mk i j i' = Some r \<longrightarrow> finite (dom r)"
    using assms(2) frow' by (auto simp: b)
  have "make_up_total (bump mk i j) = (\<Sum>k \<in> insert i (dom mk). row_total (the ((mk(i \<mapsto> row')) k)))"
    by (simp add: make_up_total_def b)
  also have "\<dots> = row_total row' + (\<Sum>k \<in> dom mk - {i}. row_total (the ((mk(i \<mapsto> row')) k)))"
    using assms(1) by (simp add: sum.insert_remove)
  also have "(\<Sum>k \<in> dom mk - {i}. row_total (the ((mk(i \<mapsto> row')) k))) =
             (\<Sum>k \<in> dom mk - {i}. row_total (the (mk k)))"
    by (rule sum.cong) auto
  finally have a: "make_up_total (bump mk i j) =
                   row_total row + 1 + (\<Sum>k \<in> dom mk - {i}. row_total (the (mk k)))"
    by (simp add: rt)
  show "make_up_total (bump mk i j) = make_up_total mk + 1"
  proof (cases "mk i")
    case None
    then have "dom mk - {i} = dom mk" by auto
    moreover from None have "row_total row = 0" by (simp add: row_def row_total_def)
    ultimately show ?thesis using a by (simp add: make_up_total_def)
  next
    case (Some r)
    then have "i \<in> dom mk" by auto
    with assms(1) have "make_up_total mk =
        row_total (the (mk i)) + (\<Sum>k \<in> dom mk - {i}. row_total (the (mk k)))"
      unfolding make_up_total_def by (rule sum.remove)
    with a Some show ?thesis by (simp add: row_def)
  qed
qed

lemma make_up_total_fold:
  assumes "finite (dom mk)" and "\<forall>i r. mk i = Some r \<longrightarrow> finite (dom r)"
  shows "make_up_total (fold (\<lambda>(i, j) m. bump m i j) ps mk) = make_up_total mk + length ps \<and>
         finite (dom (fold (\<lambda>(i, j) m. bump m i j) ps mk)) \<and>
         (\<forall>i r. fold (\<lambda>(i, j) m. bump m i j) ps mk i = Some r \<longrightarrow> finite (dom r))"
  using assms
proof (induction ps arbitrary: mk)
  case Nil
  then show ?case by simp
next
  case (Cons p ps)
  obtain i j where p: "p = (i, j)" by (cases p)
  from make_up_total_bump [OF Cons.prems, of i j]
  have t: "make_up_total (bump mk i j) = make_up_total mk + 1"
    and f1: "finite (dom (bump mk i j))"
    and f2: "\<forall>i' r. bump mk i j i' = Some r \<longrightarrow> finite (dom r)"
    by blast+
  from Cons.IH [OF f1 f2] t show ?case by (simp add: p)
qed

lemma accuracy_loop_total:
  assumes "\<forall>p t xs g ps g'. predict T p t xs g = (Inr ps, g') \<longrightarrow> length ps = length xs"
    and "\<forall>b \<in> set bs. length (fst b) = length (snd b)"
    and "finite (dom mk)" and "\<forall>i r. mk i = Some r \<longrightarrow> finite (dom r)"
    and "accuracy_loop T bs correct mk s = (Inr (correct', mk'), s')"
  shows "make_up_total mk' = make_up_total mk + sum_list (map (\<lambda>b. length (fst b)) bs)"
  using assms(2-)
proof (induction bs arbitrary: correct mk s)
  case Nil
  then show ?case by simp
next
  case (Cons b bs)
  obtain xs ys where b: "b = (xs, ys)" by (cases b)
  from Cons.prems(4) b obtain predicted s1 k where
    pr: "call_predict T xs s = (Inr predicted, s1)"
    and ce: "count_equal predicted ys = Inr k"
    and rest: "accuracy_loop T bs (correct + k)
                 (fold (\<lambda>(i, j) m. bump m i j) (zip predicted ys) mk) s1 = (Inr (correct', mk'), s')"
    by (auto split: prod.splits sum.splits)
  from pr obtain g' where "predict T (params s) (training s) xs (rng s) = (Inr predicted, g')"
    by (auto simp: call_predict_def split: prod.splits)
  with assms(1) have "length predicted = length xs" by blast
  moreover from Cons.prems(1) b have "length xs = length ys" by simp
  ultimately have lz: "length (zip predicted ys) = length xs" by simp
  let ?mk1 = "fold (\<lambda>(i, j) m. bump m i j) (zip predicted ys) mk"
  from make_up_total_fold [OF Cons.prems(2,3), of "zip predicted ys"] lz
  have t: "make_up_total ?mk1 = make_up_total mk + length xs"
    and f1: "finite (dom ?mk1)" and f2: "\<forall>i r. ?mk1 i = Some r \<longrightarrow> finite (dom r)"
    by simp_all
  from Cons.prems(1) have "\<forall>b \<in> set bs. length (fst b) = length (snd b)" by simp
  from Cons.IH [OF this f1 f2 rest] t show ?case by (simp add: b)
qed

lemma seq_Inr:
  assumes "seq m f s = (Inr y, s')"
  obtains x s1 where "m s = (Inr x, s1)" and "f x s1 = (Inr y, s')"
  using assms by (auto simp: seq_def split: prod.splits sum.splits)

text \<open>
  Claim C5. For every evaluation pass of \<^verbatim>\<open>compute_accuracy\<close> over a loader that returns
  a result, the counts of the confusion breakdown sum to the number of samples of the
  loader's dataset, which is also the \<^verbatim>\<open>total_items\<close> returned. The pass is over a loader
  with a positive batch size whose sampler yields every index once, and the network
  yields one predicted class for every row of a batch.
\<close>

theorem confusion_breakdown_sums_to_split_size:
  assumes "0 < batch_size dl"
    and "\<forall>n g. distinct (fst (randperm T n g)) \<and> set (fst (randperm T n g)) = {0..<n}"
    and "\<forall>p t xs g ps g'. predict T p t xs g = (Inr ps, g') \<longrightarrow> length ps = length xs"
    and "compute_accuracy T dl s = (Inr (correct, total_items, accuracy, mk), s')"
  shows "make_up_total mk = length (dataset dl) \<and> total_items = length (dataset dl)"
proof -
  from assms(4) obtain bs s1 where it: "iter_loader T dl s = (Inr bs, s1)"
    and r1: "seq (accuracy_loop T bs 0 Map.empty) (\<lambda>(correct, mk).
       (let total_items = length (dataset dl)
        in if total_items = 0 then raise ZeroDivisionError
           else ret (correct, total_items, real correct / real total_items, mk))) s1
         = (Inr (correct, total_items, accuracy, mk), s')"
    unfolding compute_accuracy_def by (rule seq_Inr)
  from r1 obtain cm s2 where al: "accuracy_loop T bs 0 Map.empty s1 = (Inr cm, s2)"
    and r2: "(case cm of (correct, mk) \<Rightarrow>
       (let total_items = length (dataset dl)
        in if total_items = 0 then raise ZeroDivisionError
           else ret (correct, total_items, real correct / real total_items, mk))) s2
         = (Inr (correct, total_items, accuracy, mk), s')"
    by (rule seq_Inr)
  from r2 have cm: "cm = (correct, mk)" and ti: "total_items = length (dataset dl)"
    by (auto simp: Let_def raise_def ret_def split: prod.splits if_splits)
  from it obtain order where bs: "bs = batches dl order"
    and lo: "length order = length (dataset dl)"
  proof (cases "shuffle dl")
    case True
    obtain order g where rp: "randperm T (length (dataset dl)) (rng s) = (order, g)"
      by (cases "randperm T (length (dataset dl)) (rng s)")
    with assms(2) have "distinct order" "set order = {0..<length (dataset dl)}"
      by (metis fst_conv)+
    then have "length order = length (dataset dl)"
      by (metis card_atLeastLessThan diff_zero distinct_card)
    moreover from it True rp have "bs = batches dl order"
      by (simp add: iter_loader_def Let_def)
    ultimately show ?thesis using that by blast
  next
    case False
    with it have "bs = batches dl [0..<length (dataset dl)]"
      by (simp add: iter_loader_def Let_def)
    then show ?thesis using that by simp
  qed
  have "make_up_total mk = make_up_total Map.empty + sum_list (map (\<lambda>b. length (fst b)) bs)"
    using assms(3) batches_sizes(2) [OF assms(1), of order] al
    unfolding bs cm by (intro accuracy_loop_total [where T = T]) auto
  also have "\<dots> = length (dataset dl)"
    using batches_sizes(1) [OF assms(1), of order] lo
    by (simp add: bs make_up_total_def)
  finally show ?thesis using ti by simp
qed

theorem confusion_breakdown_sums_to_split_size_witness:
  "make_up_total (bump (bump (bump Map.empty 1 1) 1 0) 0 0) = 3"
proof -
  let ?T = "\<lparr>predict = (\<lambda>p t xs g. (Inr xs, g)),
             batch_loss = (\<lambda>p t xs ys g. (Inr 0, g)),
             train_step = (\<lambda>p t xs ys g. (Inr p, g)),
             randperm = (\<lambda>n g. (rev [0..<n], g))\<rparr> :: (int, unit, unit) torch"
  let ?dl = "\<lparr>dataset = [(0, 0), (1, 0), (1, 1)], batch_size = 2, shuffle = True\<rparr> :: int DataLoader"
  let ?s = "\<lparr>params = (), training = False, rng = (),
             exp_result = new_NeuralNetworkExperimentResult 0 32 [] [] 1\<rparr>"
  have h1: "0 < batch_size ?dl" by simp
  have h2: "\<forall>n g. distinct (fst (randperm ?T n g)) \<and> set (fst (randperm ?T n g)) = {0..<n}"
    by simp
  have h3: "\<forall>p t xs g ps g'. predict ?T p t xs g = (Inr ps, g') \<longrightarrow> length ps = length xs"
    by simp
  have c: "chunks 2 [Suc (Suc 0), Suc 0, 0] = [[Suc (Suc 0), Suc 0], [0]]"
    by (simp add: chunks.simps)
  have h4: "compute_accuracy ?T ?dl ?s =
              (Inr (2, 3, 2 / 3, bump (bump (bump Map.empty 1 1) 1 0) 0 0), ?s)"
    by (simp add: compute_accuracy_def seq_def iter_loader_def batches_def c call_predict_def
                  count_equal_def ret_def)
  from confusion_breakdown_sums_to_split_size [OF h1 h2 h3 h4] show ?thesis by simp
qed

section \<open>Properties of the evaluation state and of the training run\<close>

lemma preservesI: "(\<And>s r s'. m s = (r, s') \<Longrightarrow> f s' = f s) \<Longrightarrow> preserves f m"
  by (simp add: preserves_def)

lemma preservesD: "preserves f m \<Longrightarrow> m s = (r, s') \<Longrightarrow> f s' = f s"
  by (simp add: preserves_def)

lemma preserves_seq:
  assumes "preserves f m" and "\<And>x. preserves f (g x)"
  shows "preserves f (seq m g)"
proof (rule preservesI)
  fix s r s' assume a: "seq m g s = (r, s')"
  obtain r1 s1 where m: "m s = (r1, s1)" by (cases "m s")
  with assms(1) have f1: "f s1 = f s" by (rule preservesD)
  show "f s' = f s"
  proof (cases r1)
    case (Inl e)
    with a m have "s' = s1" by (simp add: seq_def)
    with f1 show ?thesis by simp
  next
    case (Inr x)
    with a m have "g x s1 = (r, s')" by (simp add: seq_def)
    with assms(2) have "f s' = f s1" by (rule preservesD)
    with f1 show ?thesis by simp
  qed
qed

lemma preserves_ret: "preserves f (ret x)"
  by (simp add: preserves_def ret_def)

lemma preserves_raise: "preserves f (raise e)"
  by (simp add: preserves_def raise_def)

lemma preserves_call_predict:
  "preserves training (call_predict T xs)" "preserves exp_result (call_predict T xs)"
  by (auto simp: preserves_def call_predict_def split: prod.splits)

lemma preserves_call_batch_loss:
  "preserves training (call_batch_loss T xs ys)" "preserves exp_result (call_batch_loss T xs ys)"
  by (auto simp: preserves_def call_batch_loss_def split: prod.splits)

lemma preserves_call_train_step:
  "preserves training (call_train_step T xs ys)" "preserves exp_result (call_train_step T xs ys)"
  by (auto simp: preserves_def call_train_step_def split: prod.splits sum.splits)

lemma preserves_iter_loader:
  "preserves training (iter_loader T dl)" "preserves exp_result (iter_loader T dl)"
  by (auto simp: preserves_def iter_loader_def Let_def split: prod.splits if_splits)

lemma preserves_update_exp: "preserves training (update_exp h)"
  by (simp add: preserves_def update_exp_def)

lemma preserves_accuracy_loop:
  assumes "\<And>xs. preserves f (call_predict T xs)"
  shows "preserves f (accuracy_loop T bs correct mk)"
proof (rule preservesI)
  fix s r s' assume "accuracy_loop T bs correct mk s = (r, s')"
  then show "f s' = f s"
  proof (induction bs arbitrary: correct mk s)
    case Nil
    then show ?case by simp
  next
    case (Cons b bs)
    obtain xs ys where b: "b = (xs, ys)" by (cases b)
    obtain r1 s1 where p: "call_predict T xs s = (r1, s1)" by (cases "call_predict T xs s")
    with assms have f1: "f s1 = f s" by (rule preservesD)
    show ?case
    proof (cases r1)
      case (Inl e)
      with Cons.prems b p f1 show ?thesis by simp
    next
      case (Inr predicted)
      show ?thesis
      proof (cases "count_equal predicted ys")
        case (Inl e)
        with Cons.prems b p f1 \<open>r1 = Inr predicted\<close> show ?thesis by simp
      next
        case (Inr k)
        with Cons.prems b p \<open>r1 = Inr predicted\<close>
        have "accuracy_loop T bs (correct + k)
                (fold (\<lambda>(i, j) m. bump m i j) (zip predicted ys) mk) s1 = (r, s')"
          by simp
        from Cons.IH [OF this] f1 show ?thesis by simp
      qed
    qed
  qed
qed

lemma preserves_loss_loop:
  assumes "\<And>xs ys. preserves f (call_batch_loss T xs ys)"
  shows "preserves f (loss_loop T bs loss)"
proof (rule preservesI)
  fix s r s' assume "loss_loop T bs loss s = (r, s')"
  then show "f s' = f s"
  proof (induction bs arbitrary: loss s)
    case Nil
    then show ?case by simp
  next
    case (Cons b bs)
    obtain xs ys where b: "b = (xs, ys)" by (cases b)
    obtain r1 s1 where p: "call_batch_loss T xs ys s = (r1, s1)"
      by (cases "call_batch_loss T xs ys s")
    with assms have f1: "f s1 = f s" by (rule preservesD)
    show ?case
    proof (cases r1)
      case (Inl e)
      with Cons.prems b p f1 show ?thesis by simp
    next
      case (Inr l)
      with Cons.prems b p have "loss_loop T bs (loss + l) s1 = (r, s')" by simp
      from Cons.IH [OF this] f1 show ?thesis by simp
    qed
  qed
qed

lemma preserves_train_batches:
  assumes "\<And>xs ys. preserves f (call_train_step T xs ys)"
  shows "preserves f (train_batches T bs)"
proof (rule preservesI)
  fix s r s' assume "train_batches T bs s = (r, s')"
  then show "f s' = f s"
  proof (induction bs arbitrary: s)
    case Nil
    then show ?case by simp
  next
    case (Cons b bs)
    obtain xs ys where b: "b = (xs, ys)" by (cases b)
    obtain r1 s1 where p: "call_train_step T xs ys s = (r1, s1)"
      by (cases "call_train_step T xs ys s")
    with assms have f1: "f s1 = f s" by (rule preservesD)
    show ?case
    proof (cases r1)
      case (Inl e)
      with Cons.prems b p f1 show ?thesis by simp
    next
      case (Inr u)
      with Cons.prems b p have "train_batches T bs s1 = (r, s')" by simp
      from Cons.IH [OF this] f1 show ?thesis by simp
    qed
  qed
qed

lemma preserves_compute_accuracy:
  "preserves training (compute_accuracy T dl)" "preserves exp_result (compute_accuracy T dl)"
  unfolding compute_accuracy_def
  by (intro preserves_seq preserves_iter_loader preserves_accuracy_loop preserves_call_predict;
      simp add: split_def Let_def preserves_ret preserves_raise)+

lemma preserves_compute_loss:
  "preserves training (compute_loss T dl)" "preserves exp_result (compute_loss T dl)"
  unfolding compute_loss_def
  by (intro preserves_seq preserves_iter_loader preserves_loss_loop preserves_call_batch_loss;
      simp add: preserves_ret preserves_raise)+

lemma preserves_validate_body:
  "preserves training (validate_after_epoch_body T epoch train_loader test_loader)"
  unfolding validate_after_epoch_body_def
  by (intro preserves_seq preserves_compute_loss preserves_compute_accuracy preserves_update_exp;
      simp add: split_def preserves_seq preserves_compute_loss preserves_compute_accuracy
                preserves_update_exp)

text \<open>
  Claim C6. Every call of \<^verbatim>\<open>validate_after_epoch\<close> runs the evaluation body from the
  state switched to inference mode; the body, whether it returns or raises, leaves the
  mode flag as it is, so the model is in inference mode throughout; and the call ends
  with the outcome of the body, the exception included, in a state that is the body's
  final state switched to training mode.
\<close>

theorem validate_after_epoch_restores_training_mode:
  "\<exists>r s1. validate_after_epoch_body T epoch train_loader test_loader (s\<lparr>training := False\<rparr>) = (r, s1) \<and>
          training s1 = False \<and>
          validate_after_epoch T epoch train_loader test_loader s = (r, s1\<lparr>training := True\<rparr>) \<and>
          training (snd (validate_after_epoch T epoch train_loader test_loader s)) = True"
proof -
  obtain r s1 where
    b: "validate_after_epoch_body T epoch train_loader test_loader (s\<lparr>training := False\<rparr>) = (r, s1)"
    by (cases "validate_after_epoch_body T epoch train_loader test_loader (s\<lparr>training := False\<rparr>)")
  from preservesD [OF preserves_validate_body b] have "training s1 = False" by simp
  moreover from b have "validate_after_epoch T epoch train_loader test_loader s = (r, s1\<lparr>training := True\<rparr>)"
    by (simp add: validate_after_epoch_def validation_context_def eval_mode_def train_mode_def)
  ultimately show ?thesis using b by simp
qed

theorem validate_after_epoch_restores_training_mode_witness:
  "fst (validate_after_epoch
          \<lparr>predict = (\<lambda>p t xs g. (Inr xs, g)), batch_loss = (\<lambda>p t xs ys g. (Inr 0, g)),
           train_step = (\<lambda>p t xs ys g. (Inr p, g)), randperm = (\<lambda>n g. (rev [0..<n], g))\<rparr>
          0 \<lparr>dataset = [(1, 1)], batch_size = 32, shuffle = False\<rparr>
          \<lparr>dataset = [], batch_size = 32, shuffle = False\<rparr>
          \<lparr>params = (), training = True, rng = (),
           exp_result = new_NeuralNetworkExperimentResult 0 32 [] [] 1\<rparr>) = Inl ZeroDivisionError \<and>
   training (snd (validate_after_epoch
          \<lparr>predict = (\<lambda>p t xs g. (Inr xs, g)), batch_loss = (\<lambda>p t xs ys g. (Inr 0, g)),
           train_step = (\<lambda>p t xs ys g. (Inr p, g)), randperm = (\<lambda>n g. (rev [0..<n], g))\<rparr>
          0 \<lparr>dataset = [(1, 1)], batch_size = 32, shuffle = False\<rparr>
          \<lparr>dataset = [], batch_size = 32, shuffle = False\<rparr>
          \<lparr>params = (), training = True, rng = (),
           exp_result = new_NeuralNetworkExperimentResult 0 32 [] [] 1\<rparr>)) = True"
proof -
  let ?T = "\<lparr>predict = (\<lambda>p t xs g. (Inr xs, g)), batch_loss = (\<lambda>p t xs ys g. (Inr 0, g)),
           train_step = (\<lambda>p t xs ys g. (Inr p, g)), randperm = (\<lambda>n g. (rev [0..<n], g))\<rparr>
           :: (int, unit, unit) torch"
  let ?trl = "\<lparr>dataset = [(1, 1)], batch_size = 32, shuffle = False\<rparr> :: int DataLoader"
  let ?tel = "\<lparr>dataset = [], batch_size = 32, shuffle = False\<rparr> :: int DataLoader"
  let ?s = "\<lparr>params = (), training = True, rng = (),
           exp_result = new_NeuralNetworkExperimentResult 0 32 [] [] 1\<rparr>"
  have c: "chunks 32 [0 :: nat] = [[0]]" by (simp add: chunks.simps)
  have e: "chunks 32 ([] :: nat list) = []" by (simp add: chunks.simps)
  have "fst (validate_after_epoch_body ?T 0 ?trl ?tel (?s\<lparr>training := False\<rparr>)) = Inl ZeroDivisionError"
    by (simp add: validate_after_epoch_body_def seq_def compute_loss_def compute_accuracy_def
                  iter_loader_def batches_def c e call_batch_loss_def call_predict_def
                  count_equal_def len_loader_def ret_def raise_def update_exp_def)
  with validate_after_epoch_restores_training_mode [of ?T 0 ?trl ?tel ?s]
  show ?thesis by auto
qed

lemma compute_loss_exp:
  "compute_loss T dl s = (r, s') \<Longrightarrow> exp_result s' = exp_result s"
  by (rule preservesD [OF preserves_compute_loss(2)])

lemma compute_accuracy_exp:
  "compute_accuracy T dl s = (r, s') \<Longrightarrow> exp_result s' = exp_result s"
  by (rule preservesD [OF preserves_compute_accuracy(2)])

text \<open>
  A completed evaluation body: the four passes it made, each from the state the previous
  one left (with the record extended in between), and the record it leaves, which is the
  one it found with the six results appended.
\<close>

lemma validate_body_metrics:
  assumes "validate_after_epoch_body T epoch train_loader test_loader s = (Inr u, s')"
  shows "\<exists>a b c d e f s1 s2 s3 s4 c1 n1 c2 n2 r1 r2 r3.
           compute_loss T train_loader s = (Inr a, s1) \<and>
           compute_accuracy T train_loader (s1\<lparr>exp_result := r1\<rparr>) = (Inr (c1, n1, b, e), s2) \<and>
           compute_loss T test_loader (s2\<lparr>exp_result := r2\<rparr>) = (Inr c, s3) \<and>
           compute_accuracy T test_loader (s3\<lparr>exp_result := r3\<rparr>) = (Inr (c2, n2, d, f), s4) \<and>
           exp_result s' = append_epoch (exp_result s) a b c d e f"
proof -
  obtain a s1 c1 n1 b e s2 c s3 c2 n2 d f s4 where
    A: "compute_loss T train_loader s = (Inr a, s1)"
    and B: "compute_accuracy T train_loader
              (s1\<lparr>exp_result := (exp_result s1)
                   \<lparr>training_losses := training_losses (exp_result s1) @ [a]\<rparr>\<rparr>)
            = (Inr (c1, n1, b, e), s2)"
    and C: "compute_loss T test_loader
              (s2\<lparr>exp_result := (exp_result s2)
                   \<lparr>training_accuracies := training_accuracies (exp_result s2) @ [b]\<rparr>\<rparr>)
            = (Inr c, s3)"
    and D: "compute_accuracy T test_loader
              (s3\<lparr>exp_result := (exp_result s3)
                   \<lparr>testing_losses := testing_losses (exp_result s3) @ [c]\<rparr>\<rparr>)
            = (Inr (c2, n2, d, f), s4)"
    and E: "exp_result s' = (exp_result s4)
              \<lparr>testing_accuracies := testing_accuracies (exp_result s4) @ [d],
               training_classification_results :=
                 training_classification_results (exp_result s4) @ [e],
               testing_classification_results :=
                 testing_classification_results (exp_result s4) @ [f]\<rparr>"
    using assms
    by (auto simp: validate_after_epoch_body_def seq_def update_exp_def
             split: prod.splits sum.splits)
  from compute_loss_exp [OF A] have e1: "exp_result s1 = exp_result s" .
  from compute_accuracy_exp [OF B]
  have e2: "exp_result s2 = (exp_result s1)
              \<lparr>training_losses := training_losses (exp_result s1) @ [a]\<rparr>" by simp
  from compute_loss_exp [OF C]
  have e3: "exp_result s3 = (exp_result s2)
              \<lparr>training_accuracies := training_accuracies (exp_result s2) @ [b]\<rparr>" by simp
  from compute_accuracy_exp [OF D]
  have e4: "exp_result s4 = (exp_result s3)
              \<lparr>testing_losses := testing_losses (exp_result s3) @ [c]\<rparr>" by simp
  have "exp_result s' = append_epoch (exp_result s) a b c d e f"
    unfolding E e4 e3 e2 e1 by (simp add: append_epoch_def)
  with A B C D show ?thesis by blast
qed

lemma validate_metrics:
  assumes "validate_after_epoch T epoch train_loader test_loader s = (Inr u, s')"
  shows "\<exists>a b c d e f s1 s2 s3 s4 c1 n1 c2 n2 r1 r2 r3.
           compute_loss T train_loader (s\<lparr>training := False\<rparr>) = (Inr a, s1) \<and>
           compute_accuracy T train_loader (s1\<lparr>exp_result := r1\<rparr>) = (Inr (c1, n1, b, e), s2) \<and>
           compute_loss T test_loader (s2\<lparr>exp_result := r2\<rparr>) = (Inr c, s3) \<and>
           compute_accuracy T test_loader (s3\<lparr>exp_result := r3\<rparr>) = (Inr (c2, n2, d, f), s4) \<and>
           exp_result s' = append_epoch (exp_result s) a b c d e f"
proof -
  obtain r s1 where
    b: "validate_after_epoch_body T epoch train_loader test_loader (s\<lparr>training := False\<rparr>) = (r, s1)"
    by (cases "validate_after_epoch_body T epoch train_loader test_loader (s\<lparr>training := False\<rparr>)")
  with assms have "r = Inr u" and s': "s' = s1\<lparr>training := True\<rparr>"
    by (simp_all add: validate_after_epoch_def validation_context_def eval_mode_def train_mode_def)
  with b have "validate_after_epoch_body T epoch train_loader test_loader (s\<lparr>training := False\<rparr>)
                 = (Inr u, s1)" by simp
  from validate_body_metrics [OF this] show ?thesis unfolding s' by simp
qed

lemma train_epoch_exp:
  assumes "seq (iter_loader T train_loader) (train_batches T) s = (r, s')"
  shows "exp_result s' = exp_result s"
proof -
  have "preserves exp_result (seq (iter_loader T train_loader) (train_batches T))"
    by (intro preserves_seq preserves_iter_loader preserves_train_batches
              preserves_call_train_step)
  from preservesD [OF this assms] show ?thesis .
qed

text \<open>
  The states between the epochs of a completed loop: the first is the state the loop
  starts from, the last the one it ends in, and each epoch leads from one to the next by
  a pass of training followed by the evaluation for that epoch.
\<close>

lemma epoch_loop_trace:
  assumes "epoch_loop T train_loader test_loader es s0 = (Inr u, s')"
  shows "\<exists>states. length states = length es + 1 \<and> states ! 0 = s0 \<and>
           states ! length es = s' \<and>
           (\<forall>k < length es. \<exists>s_t.
              seq (iter_loader T train_loader) (train_batches T) (states ! k) = (Inr (), s_t) \<and>
              validate_after_epoch T (es ! k) train_loader test_loader s_t
                = (Inr (), states ! Suc k))"
  using assms
proof (induction es arbitrary: s0)
  case Nil
  then have "s' = s0" by simp
  then have "length [s0] = length ([] :: nat list) + 1 \<and> [s0] ! 0 = s0 \<and>
             [s0] ! length ([] :: nat list) = s'" by simp
  then show ?case by (intro exI [of _ "[s0]"]) simp
next
  case (Cons epoch es)
  from Cons.prems obtain s1 s2 where
    t: "seq (iter_loader T train_loader) (train_batches T) s0 = (Inr (), s1)"
    and va: "validate_after_epoch T epoch train_loader test_loader s1 = (Inr (), s2)"
    and rest: "epoch_loop T train_loader test_loader es s2 = (Inr u, s')"
    by (auto split: prod.splits sum.splits)
  from Cons.IH [OF rest] obtain states where
    st: "length states = length es + 1" "states ! 0 = s2" "states ! length es = s'"
    and step: "\<forall>k < length es. \<exists>s_t.
              seq (iter_loader T train_loader) (train_batches T) (states ! k) = (Inr (), s_t) \<and>
              validate_after_epoch T (es ! k) train_loader test_loader s_t
                = (Inr (), states ! Suc k)"
    by blast
  have "\<exists>s_t. seq (iter_loader T train_loader) (train_batches T) ((s0 # states) ! k)
                 = (Inr (), s_t) \<and>
               validate_after_epoch T ((epoch # es) ! k) train_loader test_loader s_t
                 = (Inr (), (s0 # states) ! Suc k)"
    if "k < length (epoch # es)" for k
  proof (cases k)
    case 0
    with t va st(2) show ?thesis by auto
  next
    case (Suc j)
    with that have "j < length es" by simp
    with step Suc show ?thesis by simp
  qed
  moreover have "length (s0 # states) = length (epoch # es) + 1" using st(1) by simp
  moreover have "(s0 # states) ! 0 = s0" by simp
  moreover have "(s0 # states) ! length (epoch # es) = s'" using st(3) by simp
  ultimately show ?case by blast
qed

text \<open>
  Claim C7. A training run that completes went through the states \<open>states ! 0\<close>, ...,
  \<open>states ! E\<close> for \<open>E\<close> the number of epochs run (\<^verbatim>\<open>range(epochs)\<close>, none for a negative
  count): it starts with the six series empty; epoch \<open>k\<close> is a pass of training followed
  by the evaluation for epoch \<open>k\<close>, which computes the training loss, the training
  accuracy and breakdown, the testing loss and the testing accuracy and breakdown and
  leaves the record with exactly these six results appended, one at the end of each
  series; so after \<open>k\<close> completed epochs every series has \<open>k\<close> entries, the entry of
  epoch \<open>k\<close> is at index \<open>k\<close>, and the record returned has \<open>E\<close> entries in every series.
\<close>

theorem run_training_appends_one_entry_per_epoch:
  assumes "run_training T lr opt crit train_dataset test_dataset n_epochs s = (Inr result, s')"
  shows "\<exists>train_loader test_loader states.
           new_DataLoader train_dataset 32 True = Inr train_loader \<and>
           new_DataLoader test_dataset 32 False = Inr test_loader \<and>
           length states = nat n_epochs + 1 \<and>
           states ! 0 = s\<lparr>exp_result := new_NeuralNetworkExperimentResult lr 32 opt crit n_epochs\<rparr> \<and>
           states ! nat n_epochs = s' \<and> result = exp_result s' \<and>
           (\<forall>k < nat n_epochs. \<exists>s_t a b c d e f s1 s2 s3 s4 c1 n1 c2 n2 r1 r2 r3.
              seq (iter_loader T train_loader) (train_batches T) (states ! k) = (Inr (), s_t) \<and>
              validate_after_epoch T k train_loader test_loader s_t = (Inr (), states ! Suc k) \<and>
              compute_loss T train_loader (s_t\<lparr>training := False\<rparr>) = (Inr a, s1) \<and>
              compute_accuracy T train_loader (s1\<lparr>exp_result := r1\<rparr>) = (Inr (c1, n1, b, e), s2) \<and>
              compute_loss T test_loader (s2\<lparr>exp_result := r2\<rparr>) = (Inr c, s3) \<and>
              compute_accuracy T test_loader (s3\<lparr>exp_result := r3\<rparr>) = (Inr (c2, n2, d, f), s4) \<and>
              exp_result (states ! Suc k) = append_epoch (exp_result (states ! k)) a b c d e f \<and>
              training_losses (exp_result (states ! Suc k)) ! k = a \<and>
              training_accuracies (exp_result (states ! Suc k)) ! k = b \<and>
              testing_losses (exp_result (states ! Suc k)) ! k = c \<and>
              testing_accuracies (exp_result (states ! Suc k)) ! k = d \<and>
              training_classification_results (exp_result (states ! Suc k)) ! k = e \<and>
              testing_classification_results (exp_result (states ! Suc k)) ! k = f) \<and>
           (\<forall>k \<le> nat n_epochs.
              length (training_losses (exp_result (states ! k))) = k \<and>
              length (training_accuracies (exp_result (states ! k))) = k \<and>
              length (testing_losses (exp_result (states ! k))) = k \<and>
              length (testing_accuracies (exp_result (states ! k))) = k \<and>
              length (training_classification_results (exp_result (states ! k))) = k \<and>
              length (testing_classification_results (exp_result (states ! k))) = k) \<and>
           length (training_losses result) = nat n_epochs \<and>
           length (training_accuracies result) = nat n_epochs \<and>
           length (testing_losses result) = nat n_epochs \<and>
           length (testing_accuracies result) = nat n_epochs \<and>
           length (training_classification_results result) = nat n_epochs \<and>
           length (testing_classification_results result) = nat n_epochs"
proof -
  define E where "E = nat n_epochs"
  define s0 where "s0 = s\<lparr>exp_result := new_NeuralNetworkExperimentResult lr 32 opt crit n_epochs\<rparr>"
  from assms obtain trl tel u where
    ltr: "new_DataLoader train_dataset 32 True = Inr trl"
    and lte: "new_DataLoader test_dataset 32 False = Inr tel"
    and l: "epoch_loop T trl tel [0..<E] s0 = (Inr u, s')"
    and r: "result = exp_result s'"
    by (auto simp: run_training_def Let_def seq_def lift_def update_exp_def E_def s0_def
             split: prod.splits sum.splits)
  from epoch_loop_trace [OF l] obtain states where
    len: "length states = E + 1" and first: "states ! 0 = s0" and last: "states ! E = s'"
    and step: "\<forall>k < E. \<exists>s_t.
              seq (iter_loader T trl) (train_batches T) (states ! k) = (Inr (), s_t) \<and>
              validate_after_epoch T k trl tel s_t = (Inr (), states ! Suc k)"
    by auto
  have app: "\<exists>s_t a b c d e f s1 s2 s3 s4 c1 n1 c2 n2 r1 r2 r3.
              seq (iter_loader T trl) (train_batches T) (states ! k) = (Inr (), s_t) \<and>
              validate_after_epoch T k trl tel s_t = (Inr (), states ! Suc k) \<and>
              compute_loss T trl (s_t\<lparr>training := False\<rparr>) = (Inr a, s1) \<and>
              compute_accuracy T trl (s1\<lparr>exp_result := r1\<rparr>) = (Inr (c1, n1, b, e), s2) \<and>
              compute_loss T tel (s2\<lparr>exp_result := r2\<rparr>) = (Inr c, s3) \<and>
              compute_accuracy T tel (s3\<lparr>exp_result := r3\<rparr>) = (Inr (c2, n2, d, f), s4) \<and>
              exp_result (states ! Suc k) = append_epoch (exp_result (states ! k)) a b c d e f"
    if "k < E" for k
  proof -
    from step that obtain s_t where
      t: "seq (iter_loader T trl) (train_batches T) (states ! k) = (Inr (), s_t)"
      and va: "validate_after_epoch T k trl tel s_t = (Inr (), states ! Suc k)"
      by blast
    from train_epoch_exp [OF t] have "exp_result s_t = exp_result (states ! k)" .
    with validate_metrics [OF va] t va show ?thesis by metis
  qed
  have lens: "length (training_losses (exp_result (states ! k))) = k \<and>
              length (training_accuracies (exp_result (states ! k))) = k \<and>
              length (testing_losses (exp_result (states ! k))) = k \<and>
              length (testing_accuracies (exp_result (states ! k))) = k \<and>
              length (training_classification_results (exp_result (states ! k))) = k \<and>
              length (testing_classification_results (exp_result (states ! k))) = k"
    if "k \<le> E" for k
    using that
  proof (induction k)
    case 0
    show ?case by (simp add: first s0_def new_NeuralNetworkExperimentResult_def)
  next
    case (Suc k)
    then have "k < E" by simp
    from app [OF this] obtain a b c d e f where
      "exp_result (states ! Suc k) = append_epoch (exp_result (states ! k)) a b c d e f"
      by blast
    with Suc show ?case by (simp add: append_epoch_def)
  qed
  have idx: "\<exists>s_t a b c d e f s1 s2 s3 s4 c1 n1 c2 n2 r1 r2 r3.
              seq (iter_loader T trl) (train_batches T) (states ! k) = (Inr (), s_t) \<and>
              validate_after_epoch T k trl tel s_t = (Inr (), states ! Suc k) \<and>
              compute_loss T trl (s_t\<lparr>training := False\<rparr>) = (Inr a, s1) \<and>
              compute_accuracy T trl (s1\<lparr>exp_result := r1\<rparr>) = (Inr (c1, n1, b, e), s2) \<and>
              compute_loss T tel (s2\<lparr>exp_result := r2\<rparr>) = (Inr c, s3) \<and>
              compute_accuracy T tel (s3\<lparr>exp_result := r3\<rparr>) = (Inr (c2, n2, d, f), s4) \<and>
              exp_result (states ! Suc k) = append_epoch (exp_result (states ! k)) a b c d e f \<and>
              training_losses (exp_result (states ! Suc k)) ! k = a \<and>
              training_accuracies (exp_result (states ! Suc k)) ! k = b \<and>
              testing_losses (exp_result (states ! Suc k)) ! k = c \<and>
              testing_accuracies (exp_result (states ! Suc k)) ! k = d \<and>
              training_classification_results (exp_result (states ! Suc k)) ! k = e \<and>
              testing_classification_results (exp_result (states ! Suc k)) ! k = f"
    if "k < E" for k
  proof -
    from app [OF that] obtain s_t a b c d e f s1 s2 s3 s4 c1 n1 c2 n2 r1 r2 r3 where
      h: "seq (iter_loader T trl) (train_batches T) (states ! k) = (Inr (), s_t)"
         "validate_after_epoch T k trl tel s_t = (Inr (), states ! Suc k)"
         "compute_loss T trl (s_t\<lparr>training := False\<rparr>) = (Inr a, s1)"
         "compute_accuracy T trl (s1\<lparr>exp_result := r1\<rparr>) = (Inr (c1, n1, b, e), s2)"
         "compute_loss T tel (s2\<lparr>exp_result := r2\<rparr>) = (Inr c, s3)"
         "compute_accuracy T tel (s3\<lparr>exp_result := r3\<rparr>) = (Inr (c2, n2, d, f), s4)"
      and ap: "exp_result (states ! Suc k) = append_epoch (exp_result (states ! k)) a b c d e f"
      by blast
    from that have "k \<le> E" by simp
    from lens [OF this] have
      "training_losses (exp_result (states ! Suc k)) ! k = a \<and>
       training_accuracies (exp_result (states ! Suc k)) ! k = b \<and>
       testing_losses (exp_result (states ! Suc k)) ! k = c \<and>
       testing_accuracies (exp_result (states ! Suc k)) ! k = d \<and>
       training_classification_results (exp_result (states ! Suc k)) ! k = e \<and>
       testing_classification_results (exp_result (states ! Suc k)) ! k = f"
      unfolding ap by (simp add: append_epoch_def nth_append)
    with h ap show ?thesis by blast
  qed
  from lens [of E] have fin:
    "length (training_losses result) = E \<and>
     length (training_accuracies result) = E \<and>
     length (testing_losses result) = E \<and>
     length (testing_accuracies result) = E \<and>
     length (training_classification_results result) = E \<and>
     length (testing_classification_results result) = E"
    by (simp add: last r)
  from ltr lte len first last r idx lens fin show ?thesis
    unfolding E_def [symmetric] s0_def [symmetric] by blast
qed

theorem run_training_appends_one_entry_per_epoch_witness:
  "\<exists>result s'.
     run_training
       \<lparr>predict = (\<lambda>p t xs g. (Inr xs, g)), batch_loss = (\<lambda>p t xs ys g. (Inr 0, g)),
        train_step = (\<lambda>p t xs ys g. (Inr p, g)), randperm = (\<lambda>n g. (rev [0..<n], g))\<rparr>
       0 [] [] [(1, 1)] [(0, 1)] 2
       \<lparr>params = (), training = True, rng = (),
        exp_result = new_NeuralNetworkExperimentResult 0 0 [] [] 0\<rparr> = (Inr result, s') \<and>
     length (training_losses result) = 2 \<and>
     length (testing_classification_results result) = 2"
proof -
  let ?T = "\<lparr>predict = (\<lambda>p t xs g. (Inr xs, g)), batch_loss = (\<lambda>p t xs ys g. (Inr 0, g)),
           train_step = (\<lambda>p t xs ys g. (Inr p, g)), randperm = (\<lambda>n g. (rev [0..<n], g))\<rparr>
           :: (int, unit, unit) torch"
  let ?s = "\<lparr>params = (), training = True, rng = (),
        exp_result = new_NeuralNetworkExperimentResult 0 0 [] [] 0\<rparr>"
  have c: "chunks 32 [0 :: nat] = [[0]]" by (simp add: chunks.simps)
  have u: "[0..<2] = [0, Suc 0]" by (simp add: upt_rec)
  have "\<exists>result s'. run_training ?T 0 [] [] [(1, 1)] [(0, 1)] 2 ?s = (Inr result, s')"
    by (simp add: run_training_def u seq_def lift_def new_DataLoader_def update_exp_def
                  iter_loader_def batches_def c
                  call_train_step_def validate_after_epoch_def validation_context_def
                  eval_mode_def train_mode_def validate_after_epoch_body_def
                  compute_loss_def compute_accuracy_def call_batch_loss_def call_predict_def
                  count_equal_def len_loader_def ret_def raise_def)
  then obtain result s' where
    r: "run_training ?T 0 [] [] [(1, 1)] [(0, 1)] 2 ?s = (Inr result, s')" by blast
  from run_training_appends_one_entry_per_epoch [OF r]
  have "length (training_losses result) = nat 2 \<and>
        length (testing_classification_results result) = nat 2" by blast
  with r show ?thesis by auto
qed

end
